theory Spec2Isabelle
  imports Main "HOL-Library.Char_ord" "HOL-Library.List_Lexorder"
begin

section \<open>The document store of lda-go (src/lda/document.go)\<close>

text \<open>
  Go strings are byte sequences and are modelled as \<open>string\<close> (a list of 8-bit
  characters); Go compares strings bytewise, which is the lexicographic order on
  \<open>char list\<close>. Positions, lengths and the two cursor indices only count upwards from 0
  and are natural numbers; topic labels, histogram entries and the entries of
  \<open>wordtopics_indices\<close> are Go \<open>int\<close> and are integers (all of them are bounded by
  the length of the text, far below the 63 bits of a Go \<open>int\<close>). An error returned through the \<open>err\<close> result
  and a panic are two different failures.
\<close>

subsection \<open>Failures\<close>

datatype error =
    NumTopicsTooSmall          \<comment> \<open>"num_topics must be >= 2"\<close>
  | TooFewWords string         \<comment> \<open>"Document less than 2 words:" + text\<close>
  | DocumentInvalid            \<comment> \<open>"Document is invalid"\<close>
  | NilDocument                \<comment> \<open>"NewWordIterator with a nil *Document"\<close>
  | InvalidDocument            \<comment> \<open>"NewWordIterator with an invalid Document"\<close>
  | CannotOpenFile             \<comment> \<open>"Cannot open file: " + filename\<close>
  | LongLine string            \<comment> \<open>"Encountered a long line:" + line\<close>
  | ReadingError               \<comment> \<open>"Error reading: " + filename + err.Error()\<close>

datatype panic =
    IndexBeyondWords nat nat   \<comment> \<open>the panic of Done: unique_word_index, len(unique_words)\<close>
  | CalledWhenDone             \<comment> \<open>"Must not call Next() when Done() is true."\<close>
  | NegativeTopic              \<comment> \<open>"new_topic is less than 0"\<close>
  | TopicTooLarge int          \<comment> \<open>"new_topic (%d) > iter.doc.topic_histogram (%d)"\<close>
  | IndexOutOfRange            \<comment> \<open>the runtime panic of a slice access out of range\<close>
  | CannotCreateDocument string error
                               \<comment> \<open>"Cannot create document from: " + line + " due to " + err.Error()\<close>

datatype failure = Returned error | Panicked panic

subsection \<open>Data\<close>

record Document =
  unique_words :: "string list"
  wordtopics_indices :: "int list"
  wordtopics :: "int list"
  topic_histogram :: "int list"

type_synonym Corpus = "Document list"

record WordIterator =
  doc :: Document
  unique_word_index :: nat
  word_topic_index :: nat

text \<open>A slice read \<open>xs[i]\<close> with a Go \<open>int\<close> index: out of range is a runtime panic.\<close>

definition at_int :: "'a list \<Rightarrow> int \<Rightarrow> panic + 'a" where
  "at_int xs i = (if 0 \<le> i \<and> i < int (length xs) then Inr (xs ! nat i) else Inl IndexOutOfRange)"

definition at_nat :: "'a list \<Rightarrow> nat \<Rightarrow> panic + 'a" where
  "at_nat xs i = (if i < length xs then Inr (xs ! i) else Inl IndexOutOfRange)"

subsection \<open>Validity and the cursor\<close>

definition IsValid :: "Document \<Rightarrow> bool" where
  "IsValid d \<longleftrightarrow>
     length (unique_words d) \<ge> 1 \<and>
     length (wordtopics_indices d) = length (wordtopics d) \<and>
     length (wordtopics d) \<ge> 2 \<and>
     length (topic_histogram d) \<ge> 2"

definition Length :: "Document \<Rightarrow> nat" where
  "Length d = length (wordtopics d)"

text \<open>The argument is a pointer: \<open>None\<close> is \<open>nil\<close>.\<close>

definition NewWordIterator :: "Document option \<Rightarrow> error + WordIterator" where
  "NewWordIterator p =
     (case p of
        None \<Rightarrow> Inl NilDocument
      | Some d \<Rightarrow>
          if \<not> IsValid d then Inl InvalidDocument
          else Inr \<lparr>doc = d, unique_word_index = 0, word_topic_index = 0\<rparr>)"

definition Done :: "WordIterator \<Rightarrow> panic + bool" where
  "Done iter =
     (if unique_word_index iter > length (unique_words (doc iter))
      then Inl (IndexBeyondWords (unique_word_index iter) (length (unique_words (doc iter))))
      else Inr (unique_word_index iter = length (unique_words (doc iter))))"

text \<open>
  \<open>Next\<close>: the right operand of \<open>||\<close> is evaluated only when the left one is false, so
  the read of \<open>wordtopics_indices\<close> happens only then.
\<close>

definition Next :: "WordIterator \<Rightarrow> panic + WordIterator" where
  "Next iter =
     (case Done iter of
        Inl p \<Rightarrow> Inl p
      | Inr True \<Rightarrow> Inl CalledWhenDone
      | Inr False \<Rightarrow>
          (let iter1 = iter\<lparr>word_topic_index := word_topic_index iter + 1\<rparr> in
           if word_topic_index iter1 \<ge> length (wordtopics (doc iter1))
           then Inr (iter1\<lparr>unique_word_index := unique_word_index iter1 + 1\<rparr>)
           else
             (case at_nat (wordtopics_indices (doc iter1)) (unique_word_index iter1 + 1) of
                Inl p \<Rightarrow> Inl p
              | Inr off \<Rightarrow>
                  if int (word_topic_index iter1) \<ge> off
                  then Inr (iter1\<lparr>unique_word_index := unique_word_index iter1 + 1\<rparr>)
                  else Inr iter1)))"

definition Topic :: "WordIterator \<Rightarrow> panic + int" where
  "Topic iter =
     (case Done iter of
        Inl p \<Rightarrow> Inl p
      | Inr True \<Rightarrow> Inl CalledWhenDone
      | Inr False \<Rightarrow> at_nat (wordtopics (doc iter)) (word_topic_index iter))"

text \<open>
  \<open>SetTopic\<close>: the three checks, then the decrement of the old topic's entry, the
  increment of the new topic's entry and the store of the label, in this order. The
  read of the old label through \<open>Topic\<close> checks the position, so the store at the same
  position is in range. Every panic happens before the first store, so a panic leaves
  the document as it was.
\<close>

definition SetTopic :: "int \<Rightarrow> WordIterator \<Rightarrow> panic + WordIterator" where
  "SetTopic new_topic iter =
     (case Done iter of
        Inl p \<Rightarrow> Inl p
      | Inr True \<Rightarrow> Inl CalledWhenDone
      | Inr False \<Rightarrow>
          if new_topic < 0 then Inl NegativeTopic
          else if new_topic \<ge> int (length (topic_histogram (doc iter)))
          then Inl (TopicTooLarge new_topic)
          else
            (case Topic iter of
               Inl p \<Rightarrow> Inl p
             | Inr old \<Rightarrow>
                 (case at_int (topic_histogram (doc iter)) old of
                    Inl p \<Rightarrow> Inl p
                  | Inr c \<Rightarrow>
                      (let h1 = (topic_histogram (doc iter))[nat old := c - 1];
                           h2 = h1[nat new_topic := h1 ! nat new_topic + 1]
                       in Inr (iter\<lparr>doc := (doc iter)
                                 \<lparr>topic_histogram := h2,
                                  wordtopics := (wordtopics (doc iter))
                                                  [word_topic_index iter := new_topic]\<rparr>\<rparr>)))))"

definition Word :: "WordIterator \<Rightarrow> panic + string" where
  "Word iter =
     (case Done iter of
        Inl p \<Rightarrow> Inl p
      | Inr True \<Rightarrow> Inl CalledWhenDone
      | Inr False \<Rightarrow> at_nat (unique_words (doc iter)) (unique_word_index iter))"

subsection \<open>Normalisation of the text\<close>

text \<open>
  The three library calls of \<open>NewDocument\<close> on a byte string. \<open>SymbolsRegexp\<close> matches
  one of the seven characters \<open>; . , ? ! " :\<close> and every match is deleted.
  \<open>strings.ToLower\<close> and \<open>strings.Fields\<close> are given for ASCII text: the upper-case
  letters are \<open>A\<close> to \<open>Z\<close> and the white space characters are tab, line feed,
  vertical tab, form feed, carriage return and space. On bytes above 127 the Go library
  decodes UTF-8, which is not modelled. The theorems about every text use of the
  normalisation only that \<open>Fields\<close> returns no empty field, and the texts that are
  evaluated are ASCII.
\<close>

definition is_symbol :: "char \<Rightarrow> bool" where
  "is_symbol c \<longleftrightarrow> c \<in> set [CHR '';'', CHR ''.'', CHR '','', CHR ''?'', CHR ''!'', CHR 0x22, CHR '':'']"

definition RemoveTailingSymbols :: "string \<Rightarrow> string" where
  "RemoveTailingSymbols word = filter (\<lambda>c. \<not> is_symbol c) word"

definition to_lower_char :: "char \<Rightarrow> char" where
  "to_lower_char c =
     (if CHR ''A'' \<le> c \<and> c \<le> CHR ''Z'' then char_of (of_char c + (32::nat)) else c)"

definition ToLower :: "string \<Rightarrow> string" where
  "ToLower s = map to_lower_char s"

definition is_space :: "char \<Rightarrow> bool" where
  "is_space c \<longleftrightarrow> c \<in> set [CHR 0x09, CHR 0x0A, CHR 0x0B, CHR 0x0C, CHR 0x0D, CHR 0x20]"

text \<open>\<open>fields_from w s\<close>: the fields of \<open>s\<close>, where \<open>w\<close> is the field being read, reversed.\<close>

fun fields_from :: "string \<Rightarrow> string \<Rightarrow> string list" where
  "fields_from w [] = (if w = [] then [] else [rev w])"
| "fields_from w (c # cs) =
     (if is_space c then (if w = [] then fields_from [] cs else rev w # fields_from [] cs)
      else fields_from (c # w) cs)"

definition Fields :: "string \<Rightarrow> string list" where
  "Fields s = fields_from [] s"

subsection \<open>Construction\<close>

text \<open>
  The grouping loop of \<open>NewDocument\<close> over the sorted words from position \<open>i\<close> on, with
  \<open>prev_word\<close> and the two slices it appends to. The else branch reads the last entry of
  \<open>wordtopics_indices\<close>, a runtime panic when the slice is still empty.
\<close>

fun group_loop ::
  "string list \<Rightarrow> nat \<Rightarrow> string \<Rightarrow> string list \<Rightarrow> int list \<Rightarrow> panic + (string list \<times> int list)"
where
  "group_loop [] i prev_word uw idx = Inr (uw, idx)"
| "group_loop (w # ws) i prev_word uw idx =
     (if w \<noteq> prev_word then group_loop ws (i + 1) w (uw @ [w]) (idx @ [int i])
      else if idx = [] then Inl IndexOutOfRange
      else group_loop ws (i + 1) prev_word uw (idx @ [last idx]))"

text \<open>The words of a text after normalisation, and sorted as \<open>sort.Strings\<close> leaves them.\<close>

definition tokens :: "string \<Rightarrow> string list" where
  "tokens text = Fields (ToLower (RemoveTailingSymbols text))"

definition sorted_tokens :: "string \<Rightarrow> string list" where
  "sorted_tokens text = sort (tokens text)"

definition NewDocument :: "string \<Rightarrow> int \<Rightarrow> failure + Document" where
  "NewDocument text num_topics =
     (if num_topics \<le> 1 then Inl (Returned NumTopicsTooSmall)
      else
        (let words = tokens text in
         if length words \<le> 1 then Inl (Returned (TooFewWords text))
         else
           (let words = sort words;
                hist = (replicate (nat num_topics) 0)[0 := int (length words)]
            in case group_loop words 0 [] [] [] of
                 Inl p \<Rightarrow> Inl (Panicked p)
               | Inr (uw, idx) \<Rightarrow>
                   (let d = \<lparr>unique_words = uw, wordtopics_indices = idx,
                             wordtopics = replicate (length words) 0,
                             topic_histogram = hist\<rparr>
                    in if \<not> IsValid d then Inl (Returned DocumentInvalid) else Inr d))))"

subsection \<open>Loading a corpus\<close>

text \<open>
  The file is what \<open>os.OpenFile\<close> and the reader give: \<open>None\<close> when the file cannot be
  opened, otherwise the results of the successive calls of \<open>ReadLine\<close>, each a line (or
  the buffer-sized beginning of a longer line, with \<open>isPrefix\<close> set), and the error that
  ends them.
\<close>

datatype read_err = EOF | OtherReadError

type_synonym source = "(string \<times> bool) list \<times> read_err"

definition NewCorpus :: Corpus where
  "NewCorpus = []"

text \<open>The body of the loop between the test of \<open>is_prefix\<close> and the next \<open>ReadLine\<close>.\<close>

definition add_line :: "int \<Rightarrow> Corpus \<Rightarrow> string \<Rightarrow> failure + Corpus" where
  "add_line num_topics corpus line =
     (if length line > 15 then
        (case NewDocument line num_topics of
           Inr d \<Rightarrow> Inr (corpus @ [d])
         | Inl (Returned e) \<Rightarrow> Inl (Panicked (CannotCreateDocument line e))
         | Inl (Panicked p) \<Rightarrow> Inl (Panicked p))
      else Inr corpus)"

text \<open>
  One iteration of \<open>for err == nil\<close> with the line \<open>l\<close> just read, and the remaining
  results of \<open>ReadLine\<close>. \<open>is_prefix\<close> is assigned by the first \<open>ReadLine\<close> only: the one
  in the loop discards its second result.
\<close>

fun read_loop ::
  "int \<Rightarrow> bool \<Rightarrow> Corpus \<Rightarrow> string \<Rightarrow> (string \<times> bool) list \<Rightarrow> read_err \<Rightarrow> failure + Corpus"
where
  "read_loop num_topics is_prefix corpus l [] fin =
     (if is_prefix then Inl (Returned (LongLine l))
      else case add_line num_topics corpus l of
             Inl f \<Rightarrow> Inl f
           | Inr corpus' \<Rightarrow> if fin \<noteq> EOF then Inl (Returned ReadingError) else Inr corpus')"
| "read_loop num_topics is_prefix corpus l ((l', p') # rest) fin =
     (if is_prefix then Inl (Returned (LongLine l))
      else case add_line num_topics corpus l of
             Inl f \<Rightarrow> Inl f
           | Inr corpus' \<Rightarrow> read_loop num_topics is_prefix corpus' l' rest fin)"

definition LoadCorpus :: "source option \<Rightarrow> int \<Rightarrow> failure + Corpus" where
  "LoadCorpus file num_topics =
     (case file of
        None \<Rightarrow> Inl (Returned CannotOpenFile)
      | Some ([], fin) \<Rightarrow> if fin \<noteq> EOF then Inl (Returned ReadingError) else Inr NewCorpus
      | Some ((l, is_prefix) # rest, fin) \<Rightarrow> read_loop num_topics is_prefix NewCorpus l rest fin)"

subsection \<open>Sequences of cursor operations\<close>

datatype cursor_op = Advance | SetTo int | ReadWord | ReadTopic

fun step :: "cursor_op \<Rightarrow> WordIterator \<Rightarrow> panic + WordIterator" where
  "step Advance iter = Next iter"
| "step (SetTo t) iter = SetTopic t iter"
| "step ReadWord iter = (case Word iter of Inl p \<Rightarrow> Inl p | Inr _ \<Rightarrow> Inr iter)"
| "step ReadTopic iter = (case Topic iter of Inl p \<Rightarrow> Inl p | Inr _ \<Rightarrow> Inr iter)"

fun run :: "cursor_op list \<Rightarrow> WordIterator \<Rightarrow> panic + WordIterator" where
  "run [] iter = Inr iter"
| "run (x # xs) iter = (case step x iter of Inl p \<Rightarrow> Inl p | Inr iter' \<Rightarrow> run xs iter')"

text \<open>A cursor opened on the document built from a text.\<close>

definition open_on :: "string \<Rightarrow> int \<Rightarrow> failure + WordIterator" where
  "open_on text num_topics =
     (case NewDocument text num_topics of
        Inl f \<Rightarrow> Inl f
      | Inr d \<Rightarrow> (case NewWordIterator (Some d) of Inl e \<Rightarrow> Inl (Returned e) | Inr iter \<Rightarrow> Inr iter))"

subsection \<open>Notions used in the proofs\<close>

text \<open>
  \<open>group_start ws k\<close> is the position where the run of equal adjacent words that
  contains position \<open>k\<close> begins.
\<close>

fun group_start :: "'a list \<Rightarrow> nat \<Rightarrow> nat" where
  "group_start ws 0 = 0"
| "group_start ws (Suc k) = (if ws ! Suc k = ws ! k then group_start ws k else Suc k)"

text \<open>
  What holds of every cursor reached from a freshly opened one: the two slices over the
  occurrences have the same length, no entry of \<open>wordtopics_indices\<close> exceeds its own
  position, the two indices of the cursor are equal, the labels are topics, and the
  histogram counts the labels.
\<close>

definition cursor_inv :: "WordIterator \<Rightarrow> bool" where
  "cursor_inv iter \<longleftrightarrow>
     length (wordtopics_indices (doc iter)) = length (wordtopics (doc iter)) \<and>
     length (unique_words (doc iter)) \<le> length (wordtopics (doc iter)) \<and>
     (\<forall>j < length (wordtopics_indices (doc iter)). wordtopics_indices (doc iter) ! j \<le> int j) \<and>
     word_topic_index iter = unique_word_index iter \<and>
     unique_word_index iter \<le> length (unique_words (doc iter)) \<and>
     (\<forall>x \<in> set (wordtopics (doc iter)). 0 \<le> x \<and> x < int (length (topic_histogram (doc iter)))) \<and>
     (\<forall>t < length (topic_histogram (doc iter)).
        topic_histogram (doc iter) ! t = int (count_list (wordtopics (doc iter)) (int t))) \<and>
     sum_list (topic_histogram (doc iter)) = int (length (wordtopics (doc iter)))"

text \<open>
  The lines of a source fed to \<open>add_line\<close> one after the other, and the test of the
  error that ended the reading.
\<close>

fun feed_lines :: "int \<Rightarrow> Corpus \<Rightarrow> string list \<Rightarrow> failure + Corpus" where
  "feed_lines K corpus [] = Inr corpus"
| "feed_lines K corpus (l # ls) =
     (case add_line K corpus l of Inl f \<Rightarrow> Inl f | Inr corpus' \<Rightarrow> feed_lines K corpus' ls)"

definition at_end :: "read_err \<Rightarrow> failure + Corpus \<Rightarrow> failure + Corpus" where
  "at_end fin r =
     (case r of Inl f \<Rightarrow> Inl f
      | Inr corpus \<Rightarrow> if fin \<noteq> EOF then Inl (Returned ReadingError) else Inr corpus)"

section \<open>Construction: the loop and the fields of the document\<close>

lemma fields_from_no_empty: "[] \<notin> set (fields_from w s)"
  by (induction s arbitrary: w) auto

lemma Fields_no_empty: "[] \<notin> set (Fields s)"
  by (simp add: Fields_def fields_from_no_empty)

lemma tokens_no_empty: "[] \<notin> set (tokens text)"
  by (simp add: tokens_def Fields_no_empty)

lemma sorted_tokens_no_empty: "[] \<notin> set (sorted_tokens text)"
  by (simp add: sorted_tokens_def tokens_no_empty)

lemma group_loop_returns:
  "idx \<noteq> [] \<or> ws = [] \<or> hd ws \<noteq> prev \<Longrightarrow> \<exists>uw' idx'. group_loop ws i prev uw idx = Inr (uw', idx')"
  by (induction ws arbitrary: i prev uw idx) auto

lemma group_loop_length:
  "group_loop ws i prev uw idx = Inr (uw', idx') \<Longrightarrow> length idx' = length idx + length ws"
  by (induction ws arbitrary: i prev uw idx) (auto split: if_splits)

lemma group_loop_words:
  "group_loop ws i prev uw idx = Inr (uw', idx') \<Longrightarrow> uw' = uw @ tl (remdups_adj (prev # ws))"
proof (induction ws arbitrary: i prev uw idx)
  case Nil
  then show ?case by simp
next
  case (Cons w ws)
  show ?case
  proof (cases "w = prev")
    case True
    with Cons.prems have "group_loop ws (i + 1) prev uw (idx @ [last idx]) = Inr (uw', idx')"
      by (simp split: if_splits)
    from Cons.IH [OF this] True show ?thesis by simp
  next
    case False
    with Cons.prems have "group_loop ws (i + 1) w (uw @ [w]) (idx @ [int i]) = Inr (uw', idx')"
      by simp
    from Cons.IH [OF this] have "uw' = uw @ w # tl (remdups_adj (w # ws))" by simp
    with False show ?thesis by simp
  qed
qed

lemma group_loop_start:
  assumes "ws \<noteq> []" "hd ws \<noteq> prev"
  shows "\<exists>idx'. group_loop ws 0 prev [] [] = Inr (remdups_adj ws, idx') \<and> length idx' = length ws"
proof -
  obtain uw' idx' where r: "group_loop ws 0 prev [] [] = Inr (uw', idx')"
    using group_loop_returns [of "[]" ws prev 0 "[]"] assms by auto
  have "uw' = tl (remdups_adj (prev # ws))"
    using group_loop_words [OF r] by simp
  moreover have "tl (remdups_adj (prev # ws)) = remdups_adj ws"
    using assms by (cases ws) auto
  ultimately show ?thesis
    using r group_loop_length [OF r] by simp
qed

lemma NewDocument_success:
  assumes "1 < K" "1 < length (tokens text)"
  shows "\<exists>idx. NewDocument text K =
           Inr \<lparr>unique_words = remdups_adj (sorted_tokens text), wordtopics_indices = idx,
                wordtopics = replicate (length (tokens text)) 0,
                topic_histogram = (replicate (nat K) 0)[0 := int (length (tokens text))]\<rparr>
         \<and> group_loop (sorted_tokens text) 0 [] [] [] = Inr (remdups_adj (sorted_tokens text), idx)
         \<and> length idx = length (tokens text)"
proof -
  let ?ws = "sorted_tokens text"
  have len: "length ?ws = length (tokens text)" by (simp add: sorted_tokens_def)
  have ne: "?ws \<noteq> []" using assms(2) len by auto
  have "hd ?ws \<in> set ?ws" using ne by simp
  then have hdne: "hd ?ws \<noteq> []" using sorted_tokens_no_empty [of "text"] by metis
  obtain idx where g: "group_loop ?ws 0 [] [] [] = Inr (remdups_adj ?ws, idx)"
    and l: "length idx = length ?ws"
    using group_loop_start [OF ne hdne] by blast
  have u: "1 \<le> length (remdups_adj ?ws)" using ne by (simp add: Suc_le_eq)
  have "NewDocument text K =
           Inr \<lparr>unique_words = remdups_adj ?ws, wordtopics_indices = idx,
                wordtopics = replicate (length (tokens text)) 0,
                topic_histogram = (replicate (nat K) 0)[0 := int (length (tokens text))]\<rparr>"
    using assms g l len u
    by (simp add: NewDocument_def Let_def IsValid_def sorted_tokens_def)
  then show ?thesis using g l len by auto
qed

lemma NewDocument_failure:
  assumes "K < 2 \<or> length (tokens text) < 2"
  shows "NewDocument text K = Inl (Returned (if K < 2 then NumTopicsTooSmall else TooFewWords text))"
  using assms by (auto simp: NewDocument_def Let_def)

subsection \<open>Starts of the groups\<close>

lemma group_start_le: "group_start ws k \<le> k"
  by (induction k) auto

lemma group_start_append: "k < length pre \<Longrightarrow> group_start (pre @ rest) k = group_start pre k"
  by (induction k) (auto simp: nth_append)

lemma group_start_same: "group_start ws k \<le> m \<Longrightarrow> m \<le> k \<Longrightarrow> ws ! m = ws ! k"
proof (induction k)
  case 0
  then show ?case by simp
next
  case (Suc k)
  show ?case
  proof (cases "m = Suc k")
    case True
    then show ?thesis by simp
  next
    case False
    with Suc.prems have mk: "m \<le> k" by simp
    with Suc.prems have eq: "ws ! Suc k = ws ! k" by (auto split: if_splits)
    with Suc.prems have "group_start ws k \<le> m" by simp
    from Suc.IH [OF this mk] eq show ?thesis by simp
  qed
qed

lemma group_start_boundary:
  "group_start ws k = 0 \<or> ws ! (group_start ws k - 1) \<noteq> ws ! group_start ws k"
  by (induction k) auto

lemma group_start_Suc_ge: "group_start ws k \<le> group_start ws (Suc k)"
  using group_start_le [of ws k] by simp

lemma group_start_mono: "k \<le> k' \<Longrightarrow> group_start ws k \<le> group_start ws k'"
proof (induction k')
  case 0
  then show ?case by simp
next
  case (Suc k')
  show ?case
  proof (cases "k = Suc k'")
    case True
    then show ?thesis by simp
  next
    case False
    with Suc.prems have "k \<le> k'" by simp
    from Suc.IH [OF this] group_start_Suc_ge [of ws k'] show ?thesis by linarith
  qed
qed

lemma group_start_first:
  fixes ws :: "'a::linorder list"
  assumes "sorted ws" "k < length ws" "ws ! m = ws ! k"
  shows "group_start ws k \<le> m"
proof (rule ccontr)
  let ?s = "group_start ws k"
  assume "\<not> ?s \<le> m"
  then have lt: "m < ?s" by simp
  then have pos: "?s \<noteq> 0" by simp
  with group_start_boundary [of ws k] have ne: "ws ! (?s - 1) \<noteq> ws ! ?s" by simp
  have sk: "?s \<le> k" by (rule group_start_le)
  have e: "ws ! ?s = ws ! k" using group_start_same [of ws k ?s] sk by simp
  have "ws ! m \<le> ws ! (?s - 1)"
    using assms(1,2) lt sk by (intro sorted_nth_mono) auto
  moreover have "ws ! (?s - 1) \<le> ws ! ?s"
    using assms(1,2) sk by (intro sorted_nth_mono) auto
  ultimately show False using ne e assms(3) by simp
qed

lemma remdups_adj_strict:
  fixes xs :: "'a::linorder list"
  shows "sorted xs \<Longrightarrow> sorted_wrt (<) (remdups_adj xs)"
  by (induction xs rule: remdups_adj.induct) (auto simp: less_le)

lemma count_list_all_eq: "\<forall>y\<in>set ys. y = x \<Longrightarrow> count_list ys x = length ys"
  by (induction ys) auto

lemma count_list_sort: "count_list (sort xs) y = count_list xs y"
  by (simp add: count_list_eq_length_filter filter_sort)

lemma group_start_last_count:
  fixes ws :: "'a::linorder list"
  assumes "sorted ws" "ws \<noteq> []"
  shows "group_start ws (length ws - 1) + count_list ws (last ws) = length ws"
proof -
  let ?k = "length ws - 1"
  let ?s = "group_start ws ?k"
  have k: "?k < length ws" using assms(2) by simp
  have x: "last ws = ws ! ?k" using assms(2) by (simp add: last_conv_nth)
  have sk: "?s \<le> ?k" by (rule group_start_le)
  have "last ws \<notin> set (take ?s ws)"
  proof
    assume "last ws \<in> set (take ?s ws)"
    then obtain m where m: "m < length (take ?s ws)" "take ?s ws ! m = last ws"
      by (auto simp: in_set_conv_nth)
    then have "ws ! m = ws ! ?k" "m < ?s" using x by auto
    with group_start_first [OF assms(1) k, of m] show False by simp
  qed
  then have a: "count_list (take ?s ws) (last ws) = 0" by simp
  have "\<forall>y\<in>set (drop ?s ws). y = last ws"
  proof
    fix y assume "y \<in> set (drop ?s ws)"
    then obtain j where j: "j < length (drop ?s ws)" "drop ?s ws ! j = y"
      by (auto simp: in_set_conv_nth)
    then have "?s + j \<le> ?k" by simp
    with group_start_same [of ws ?k "?s + j"] have "ws ! (?s + j) = ws ! ?k" by simp
    with j x sk k show "y = last ws" by simp
  qed
  then have b: "count_list (drop ?s ws) (last ws) = length ws - ?s"
    using count_list_all_eq [of "drop ?s ws" "last ws"] by simp
  have "count_list ws (last ws) = count_list (take ?s ws @ drop ?s ws) (last ws)" by simp
  also have "\<dots> = length ws - ?s" using a b by (simp del: append_take_drop_id)
  finally show ?thesis using sk k by simp
qed

lemma group_loop_offsets:
  assumes "group_loop rest (length pre) prev uw idx = Inr (uw', idx')"
    and "pre \<noteq> [] \<Longrightarrow> prev = last pre"
    and "idx = map (\<lambda>k. int (group_start pre k)) [0..<length pre]"
  shows "idx' = map (\<lambda>k. int (group_start (pre @ rest) k)) [0..<length (pre @ rest)]"
  using assms
proof (induction rest arbitrary: pre prev uw idx)
  case Nil
  then show ?case by simp
next
  case (Cons w ws)
  let ?pre = "pre @ [w]"
  have old: "map (\<lambda>k. int (group_start ?pre k)) [0..<length pre] = idx"
    using Cons.prems(3) by (simp add: group_start_append)
  show ?case
  proof (cases "w = prev")
    case False
    with Cons.prems(1)
    have r: "group_loop ws (length ?pre) w (uw @ [w]) (idx @ [int (length pre)]) = Inr (uw', idx')"
      by simp
    have "group_start ?pre (length pre) = length pre"
    proof (cases pre rule: rev_cases)
      case Nil
      then show ?thesis by simp
    next
      case (snoc ys y)
      with Cons.prems(2) False have "y \<noteq> w" by auto
      with snoc show ?thesis by (simp add: nth_append)
    qed
    then have "idx @ [int (length pre)] = map (\<lambda>k. int (group_start ?pre k)) [0..<length ?pre]"
      using old by simp
    from Cons.IH [OF r _ this] show ?thesis by simp
  next
    case True
    with Cons.prems(1) have ne: "idx \<noteq> []" by (auto split: if_splits)
    with True Cons.prems(1)
    have r: "group_loop ws (length ?pre) prev uw (idx @ [last idx]) = Inr (uw', idx')"
      by simp
    from ne Cons.prems(3) have pne: "pre \<noteq> []" by auto
    then obtain ys y where snoc: "pre = ys @ [y]" by (cases pre rule: rev_cases) auto
    with Cons.prems(2) True have y: "y = w" by simp
    have "last idx = int (group_start pre (length ys))"
      using Cons.prems(3) snoc by simp
    moreover have "group_start ?pre (length pre) = group_start ?pre (length ys)"
      using snoc y by (simp add: nth_append)
    moreover have "group_start ?pre (length ys) = group_start pre (length ys)"
      using snoc by (intro group_start_append) simp
    ultimately have i: "idx @ [last idx] = map (\<lambda>k. int (group_start ?pre k)) [0..<length ?pre]"
      using old by simp
    have p: "prev = last ?pre" using True by simp
    from Cons.IH [OF r p i] show ?thesis by simp
  qed
qed

lemma group_loop_card:
  assumes "group_loop ws i prev uw idx = Inr (uw', idx')"
    and "\<forall>x\<in>set idx. x < int i" and "card (set idx) = length uw"
  shows "card (set idx') = length uw'"
  using assms
proof (induction ws arbitrary: i prev uw idx)
  case Nil
  then show ?case by simp
next
  case (Cons w ws)
  show ?case
  proof (cases "w = prev")
    case False
    with Cons.prems(1)
    have r: "group_loop ws (i + 1) w (uw @ [w]) (idx @ [int i]) = Inr (uw', idx')" by simp
    have "int i \<notin> set idx" using Cons.prems(2) by auto
    then have c: "card (set (idx @ [int i])) = length (uw @ [w])"
      using Cons.prems(3) by simp
    have b: "\<forall>x\<in>set (idx @ [int i]). x < int (i + 1)" using Cons.prems(2) by auto
    from Cons.IH [OF r b c] show ?thesis .
  next
    case True
    with Cons.prems(1) have ne: "idx \<noteq> []" by (auto split: if_splits)
    with True Cons.prems(1)
    have r: "group_loop ws (i + 1) prev uw (idx @ [last idx]) = Inr (uw', idx')" by simp
    have s: "set (idx @ [last idx]) = set idx" using ne by auto
    have b: "\<forall>x\<in>set (idx @ [last idx]). x < int (i + 1)"
      using Cons.prems(2) s by auto
    have c: "card (set (idx @ [last idx])) = length uw" using s Cons.prems(3) by simp
    from Cons.IH [OF r b c] show ?thesis .
  qed
qed

text \<open>Every field of a document that \<open>NewDocument\<close> returns.\<close>

lemma NewDocument_built:
  assumes "NewDocument text K = Inr d"
  shows "1 < K" and "1 < length (sorted_tokens text)"
    and "unique_words d = remdups_adj (sorted_tokens text)"
    and "wordtopics_indices d =
           map (\<lambda>k. int (group_start (sorted_tokens text) k)) [0..<length (sorted_tokens text)]"
    and "wordtopics d = replicate (length (sorted_tokens text)) 0"
    and "topic_histogram d = (replicate (nat K) 0)[0 := int (length (sorted_tokens text))]"
    and "card (set (wordtopics_indices d)) = length (unique_words d)"
proof -
  let ?ws = "sorted_tokens text"
  have len: "length ?ws = length (tokens text)" by (simp add: sorted_tokens_def)
  have c: "\<not> (K < 2 \<or> length (tokens text) < 2)"
    using NewDocument_failure [of K "text"] assms by auto
  then show "1 < K" and "1 < length ?ws" using len by auto
  from c have "1 < K" "1 < length (tokens text)" by auto
  from NewDocument_success [OF this] assms obtain idx
    where d: "d = \<lparr>unique_words = remdups_adj ?ws, wordtopics_indices = idx,
                wordtopics = replicate (length (tokens text)) 0,
                topic_histogram = (replicate (nat K) 0)[0 := int (length (tokens text))]\<rparr>"
      and g: "group_loop ?ws 0 [] [] [] = Inr (remdups_adj ?ws, idx)"
    by auto
  from d len show "unique_words d = remdups_adj ?ws"
    and "wordtopics d = replicate (length ?ws) 0"
    and "topic_histogram d = (replicate (nat K) 0)[0 := int (length ?ws)]"
    by simp_all
  have "idx = map (\<lambda>k. int (group_start ([] @ ?ws) k)) [0..<length ([] @ ?ws)]"
    by (rule group_loop_offsets [of ?ws "[]" "[]" "[]" "[]"]) (use g in simp_all)
  with d show "wordtopics_indices d = map (\<lambda>k. int (group_start ?ws k)) [0..<length ?ws]"
    by simp
  have "card (set idx) = length (remdups_adj ?ws)"
    by (rule group_loop_card [OF g]) simp_all
  with d show "card (set (wordtopics_indices d)) = length (unique_words d)" by simp
qed

text \<open>
  The layout that \<open>NewDocument\<close> gives \<open>wordtopics_indices\<close>, for N occurrences
  and U distinct words: N entries, one per occurrence, non-negative and in
  non-decreasing order, the first one 0, the last one N minus the number of occurrences
  of the last distinct word, with U distinct values among them. The comment of the type
  \<open>Document\<close> draws one index per distinct word, and \<open>Next\<close> reads the entry at the
  word's ordinal plus one as the end of the word's group.
\<close>

lemma built_offsets_layout:
  assumes "NewDocument text K = Inr d"
  shows "length (unique_words d) = card (set (tokens text)) \<and>
         length (wordtopics d) = length (tokens text) \<and>
         length (wordtopics_indices d) = length (tokens text) \<and>
         (\<forall>x \<in> set (wordtopics_indices d). 0 \<le> x) \<and>
         sorted (wordtopics_indices d) \<and>
         hd (wordtopics_indices d) = 0 \<and>
         last (wordtopics_indices d)
           = int (length (tokens text)) - int (count_list (tokens text) (last (unique_words d))) \<and>
         last (wordtopics_indices d) < int (length (tokens text)) \<and>
         card (set (wordtopics_indices d)) = length (unique_words d)"
proof -
  let ?ws = "sorted_tokens text"
  let ?N = "length ?ws"
  let ?idx = "wordtopics_indices d"
  note b = NewDocument_built [OF assms]
  have s: "sorted ?ws" by (simp add: sorted_tokens_def)
  have len: "?N = length (tokens text)" by (simp add: sorted_tokens_def)
  have ne: "?ws \<noteq> []" using b(2) by auto
  have "distinct (remdups_adj ?ws)"
    using remdups_adj_strict [OF s] by (simp add: strict_sorted_iff)
  from distinct_card [OF this] have "length (remdups_adj ?ws) = card (set ?ws)"
    by simp
  then have 1: "length (unique_words d) = card (set (tokens text))"
    using b(3) by (simp add: sorted_tokens_def)
  have 2: "length (wordtopics d) = length (tokens text)" using b(5) len by simp
  have 3: "length ?idx = length (tokens text)" using b(4) len by simp
  have 4: "\<forall>x \<in> set ?idx. 0 \<le> x" unfolding b(4) by auto
  have 5: "sorted ?idx"
    unfolding b(4) by (auto simp: sorted_map sorted_wrt_iff_nth_less group_start_mono)
  have ine: "?idx \<noteq> []" using 3 b(2) len by auto
  have pos: "0 < ?N" using b(2) by linarith
  have "?idx ! 0 = int (group_start ?ws 0)" unfolding b(4) using pos by simp
  then have 6: "hd ?idx = 0" using ine by (simp add: hd_conv_nth)
  have "last ?idx = ?idx ! (?N - 1)" using ine 3 len by (simp add: last_conv_nth)
  also have "\<dots> = int (group_start ?ws (?N - 1))" unfolding b(4) using pos by simp
  finally have l: "last ?idx = int (group_start ?ws (?N - 1))" .
  have c: "count_list (tokens text) (last (unique_words d)) = count_list ?ws (last ?ws)"
    unfolding b(3) by (simp add: sorted_tokens_def count_list_sort)
  have 7: "last ?idx = int (length (tokens text)) - int (count_list (tokens text) (last (unique_words d)))"
    using group_start_last_count [OF s ne] l c len by simp
  have "group_start ?ws (?N - 1) < ?N"
    using group_start_le [of ?ws "?N - 1"] pos by linarith
  then have 8: "last ?idx < int (length (tokens text))" using l len by simp
  have 9: "card (set ?idx) = length (unique_words d)" using b(7) .
  from 1 2 3 4 5 6 7 8 9 show ?thesis by blast
qed

section \<open>The cursor\<close>

lemma sum_list_update_int:
  fixes xs :: "int list"
  shows "i < length xs \<Longrightarrow> sum_list (xs[i := v]) = sum_list xs - xs ! i + v"
  by (induction xs arbitrary: i) (auto split: nat.splits)

lemma count_list_update:
  "i < length xs \<Longrightarrow>
   int (count_list (xs[i := v]) t) =
     int (count_list xs t) - (if xs ! i = t then 1 else 0) + (if v = t then 1 else 0)"
proof (induction xs arbitrary: i)
  case Nil
  then show ?case by simp
next
  case (Cons a xs)
  show ?case
  proof (cases i)
    case 0
    then show ?thesis by simp
  next
    case (Suc j)
    with Cons.prems have "j < length xs" by simp
    from Cons.IH [OF this] Suc show ?thesis by (auto split: if_splits)
  qed
qed

lemma count_list_replicate: "count_list (replicate n x) y = (if x = y then n else 0)"
  by (induction n) auto

lemma sum_list_replicate_zero: "sum_list (replicate n (0::int)) = 0"
  by (induction n) auto

lemma inv_offset:
  assumes "cursor_inv iter" "Suc (unique_word_index iter) < length (wordtopics (doc iter))"
  shows "wordtopics_indices (doc iter) ! Suc (unique_word_index iter)
           \<le> 1 + int (unique_word_index iter)"
proof -
  have "Suc (unique_word_index iter) < length (wordtopics_indices (doc iter))"
    using assms by (simp add: cursor_inv_def)
  moreover have "\<forall>j < length (wordtopics_indices (doc iter)). wordtopics_indices (doc iter) ! j \<le> int j"
    using assms(1) by (simp add: cursor_inv_def)
  ultimately have "wordtopics_indices (doc iter) ! Suc (unique_word_index iter)
           \<le> int (Suc (unique_word_index iter))" by blast
  then show ?thesis by simp
qed

lemma Next_inv:
  assumes "cursor_inv iter" "Next iter = Inr iter'"
  shows "cursor_inv iter'" and "doc iter' = doc iter"
    and "unique_word_index iter' = unique_word_index iter + 1"
proof -
  have nd: "unique_word_index iter < length (unique_words (doc iter))"
    using assms(2) by (auto simp: Next_def Done_def split: if_splits bool.splits)
  let ?j = "unique_word_index iter + 1"
  have w: "word_topic_index iter = unique_word_index iter"
    and l: "length (wordtopics_indices (doc iter)) = length (wordtopics (doc iter))"
    using assms(1) by (simp_all add: cursor_inv_def)
  have r: "iter' = iter\<lparr>word_topic_index := ?j, unique_word_index := ?j\<rparr>"
    using assms(2) inv_offset [OF assms(1)] nd w l
    by (auto simp: Next_def Done_def Let_def at_nat_def split: if_splits)
  then show "doc iter' = doc iter" "unique_word_index iter' = unique_word_index iter + 1"
    by simp_all
  show "cursor_inv iter'" using assms(1) nd r by (simp add: cursor_inv_def)
qed

lemma Next_returns:
  assumes "cursor_inv iter" "unique_word_index iter < length (unique_words (doc iter))"
  shows "Next iter = Inr (iter\<lparr>word_topic_index := unique_word_index iter + 1,
                               unique_word_index := unique_word_index iter + 1\<rparr>)"
proof -
  have w: "word_topic_index iter = unique_word_index iter"
    and l: "length (wordtopics_indices (doc iter)) = length (wordtopics (doc iter))"
    using assms(1) by (simp_all add: cursor_inv_def)
  show ?thesis
    using assms(2) inv_offset [OF assms(1)] w l
    by (auto simp: Next_def Done_def Let_def at_nat_def)
qed

lemma Topic_inv:
  assumes "cursor_inv iter" "Topic iter = Inr t"
  shows "0 \<le> t" "t < int (length (topic_histogram (doc iter)))"
    and "word_topic_index iter < length (wordtopics (doc iter))"
    and "t = wordtopics (doc iter) ! word_topic_index iter"
proof -
  show i: "word_topic_index iter < length (wordtopics (doc iter))"
    and t: "t = wordtopics (doc iter) ! word_topic_index iter"
    using assms(2) by (auto simp: Topic_def Done_def at_nat_def split: if_splits bool.splits)
  then have "t \<in> set (wordtopics (doc iter))" by simp
  then show "0 \<le> t" "t < int (length (topic_histogram (doc iter)))"
    using assms(1) by (auto simp: cursor_inv_def)
qed

lemma Topic_returns:
  assumes "cursor_inv iter" "unique_word_index iter < length (unique_words (doc iter))"
  shows "Topic iter = Inr (wordtopics (doc iter) ! word_topic_index iter)"
  using assms by (auto simp: Topic_def Done_def at_nat_def cursor_inv_def)

lemma SetTopic_result:
  assumes "SetTopic new iter = Inr iter'"
  shows "\<exists>old. Topic iter = Inr old \<and> 0 \<le> old \<and> old < int (length (topic_histogram (doc iter)))
           \<and> 0 \<le> new \<and> new < int (length (topic_histogram (doc iter)))
           \<and> iter' = iter\<lparr>doc := (doc iter)
                \<lparr>topic_histogram :=
                   ((topic_histogram (doc iter))[nat old := topic_histogram (doc iter) ! nat old - 1])
                   [nat new := ((topic_histogram (doc iter))
                       [nat old := topic_histogram (doc iter) ! nat old - 1]) ! nat new + 1],
                 wordtopics := (wordtopics (doc iter))[word_topic_index iter := new]\<rparr>\<rparr>"
  using assms
  by (auto simp: SetTopic_def at_int_def Let_def split: sum.splits bool.splits if_splits)

lemma SetTopic_returns:
  assumes "cursor_inv iter" "unique_word_index iter < length (unique_words (doc iter))"
    and "0 \<le> new" "new < int (length (topic_histogram (doc iter)))"
  shows "\<exists>iter'. SetTopic new iter = Inr iter'"
proof -
  from Topic_returns [OF assms(1,2)] obtain old where t: "Topic iter = Inr old" by simp
  from Topic_inv [OF assms(1) t] have "0 \<le> old" "old < int (length (topic_histogram (doc iter)))"
    by simp_all
  with t assms show ?thesis
    by (simp add: SetTopic_def Done_def at_int_def Let_def)
qed

lemma SetTopic_inv:
  assumes "cursor_inv iter" "SetTopic new iter = Inr iter'"
  shows "cursor_inv iter'"
proof -
  let ?h = "topic_histogram (doc iter)"
  let ?w = "wordtopics (doc iter)"
  let ?i = "word_topic_index iter"
  from SetTopic_result [OF assms(2)] obtain old where
    t: "Topic iter = Inr old" and o: "0 \<le> old" "old < int (length ?h)"
    and n: "0 \<le> new" "new < int (length ?h)"
    and r: "iter' = iter\<lparr>doc := (doc iter)
                \<lparr>topic_histogram := (?h[nat old := ?h ! nat old - 1])
                   [nat new := (?h[nat old := ?h ! nat old - 1]) ! nat new + 1],
                 wordtopics := ?w[?i := new]\<rparr>\<rparr>"
    by blast
  note ti = Topic_inv [OF assms(1) t]
  have old: "old = ?w ! ?i" and i: "?i < length ?w" using ti by simp_all
  have labels: "\<forall>x \<in> set (?w[?i := new]). 0 \<le> x \<and> x < int (length ?h)"
  proof
    fix x assume "x \<in> set (?w[?i := new])"
    then have "x = new \<or> x \<in> set ?w" using set_update_subset_insert [of ?w ?i new] by auto
    then show "0 \<le> x \<and> x < int (length ?h)" using n assms(1) by (auto simp: cursor_inv_def)
  qed
  have counts: "((?h[nat old := ?h ! nat old - 1])
                   [nat new := (?h[nat old := ?h ! nat old - 1]) ! nat new + 1]) ! t
                = int (count_list (?w[?i := new]) (int t))" if "t < length ?h" for t
  proof -
    have h: "?h ! t = int (count_list ?w (int t))" using assms(1) that by (simp add: cursor_inv_def)
    have a: "nat old = t \<longleftrightarrow> old = int t" using o by auto
    have b: "nat new = t \<longleftrightarrow> new = int t" using n by auto
    have no: "nat old < length ?h" "nat new < length ?h" using o n by auto
    show ?thesis
      using that h a b no old
      by (simp add: count_list_update [OF i] nth_list_update)
  qed
  have total: "sum_list ((?h[nat old := ?h ! nat old - 1])
                   [nat new := (?h[nat old := ?h ! nat old - 1]) ! nat new + 1])
                = int (length ?w)"
  proof -
    have no: "nat old < length ?h" "nat new < length ?h" using o n by auto
    have "sum_list ?h = int (length ?w)" using assms(1) by (simp add: cursor_inv_def)
    then show ?thesis using no by (simp add: sum_list_update_int)
  qed
  show ?thesis
    using assms(1) labels counts total unfolding r cursor_inv_def by simp
qed

lemma step_inv:
  assumes "cursor_inv iter" "step x iter = Inr iter'"
  shows "cursor_inv iter'"
proof (cases x)
  case Advance
  with assms show ?thesis using Next_inv(1) by simp
next
  case (SetTo t)
  with assms show ?thesis using SetTopic_inv by simp
next
  case ReadWord
  with assms show ?thesis by (auto split: sum.splits)
next
  case ReadTopic
  with assms show ?thesis by (auto split: sum.splits)
qed

lemma run_inv: "cursor_inv iter \<Longrightarrow> run ops iter = Inr iter' \<Longrightarrow> cursor_inv iter'"
proof (induction ops arbitrary: iter)
  case Nil
  then show ?case by simp
next
  case (Cons x xs)
  then show ?case by (auto split: sum.splits dest: step_inv)
qed

lemma run_append:
  "run (xs @ ys) iter = (case run xs iter of Inl p \<Rightarrow> Inl p | Inr iter' \<Rightarrow> run ys iter')"
  by (induction xs arbitrary: iter) (auto split: sum.splits)

lemma run_take:
  assumes "run ops iter = Inr iter'"
  shows "\<exists>iter''. run (take n ops) iter = Inr iter''"
proof -
  have "run (take n ops @ drop n ops) iter = Inr iter'" using assms by simp
  then show ?thesis unfolding run_append by (auto split: sum.splits)
qed

lemma opened_inv:
  assumes "NewDocument text K = Inr d" "NewWordIterator (Some d) = Inr iter"
  shows "cursor_inv iter" and "doc iter = d"
    and "unique_word_index iter = 0" and "word_topic_index iter = 0"
proof -
  note b = NewDocument_built [OF assms(1)]
  let ?ws = "sorted_tokens text"
  have it: "iter = \<lparr>doc = d, unique_word_index = 0, word_topic_index = 0\<rparr>"
    using assms(2) by (auto simp: NewWordIterator_def split: if_splits)
  then show "doc iter = d" "unique_word_index iter = 0" "word_topic_index iter = 0"
    by simp_all
  have K: "0 < nat K" using b(1) by simp
  have h0: "topic_histogram d ! t = int (count_list (wordtopics d) (int t))"
    if "t < length (topic_histogram d)" for t
    using that K unfolding b(5,6) by (cases t) (simp_all add: count_list_replicate)
  have tot: "sum_list (topic_histogram d) = int (length (wordtopics d))"
    using K unfolding b(5,6) by (simp add: sum_list_update_int sum_list_replicate_zero)
  have lab: "\<forall>x \<in> set (wordtopics d). 0 \<le> x \<and> x < int (length (topic_histogram d))"
    using K unfolding b(5,6) by auto
  have offs: "\<forall>j < length (wordtopics_indices d). wordtopics_indices d ! j \<le> int j"
    unfolding b(4) by (simp add: group_start_le)
  have lens: "length (wordtopics_indices d) = length (wordtopics d)"
    unfolding b(4,5) by simp
  have u: "length (unique_words d) \<le> length (wordtopics d)"
    unfolding b(3,5) by simp
  show "cursor_inv iter"
    unfolding cursor_inv_def it using h0 tot lab offs lens u by simp
qed

lemma step_frame:
  assumes "step x iter = Inr iter'"
  shows "unique_words (doc iter') = unique_words (doc iter)"
    and "wordtopics_indices (doc iter') = wordtopics_indices (doc iter)"
    and "length (wordtopics (doc iter')) = length (wordtopics (doc iter))"
    and "length (topic_histogram (doc iter')) = length (topic_histogram (doc iter))"
proof -
  have "unique_words (doc iter') = unique_words (doc iter) \<and>
        wordtopics_indices (doc iter') = wordtopics_indices (doc iter) \<and>
        length (wordtopics (doc iter')) = length (wordtopics (doc iter)) \<and>
        length (topic_histogram (doc iter')) = length (topic_histogram (doc iter))"
  proof (cases x)
    case Advance
    with assms show ?thesis
      by (auto simp: Next_def Let_def split: sum.splits bool.splits if_splits)
  next
    case (SetTo t)
    with assms have "SetTopic t iter = Inr iter'" by simp
    from SetTopic_result [OF this] show ?thesis by auto
  next
    case ReadWord
    with assms show ?thesis by (auto split: sum.splits)
  next
    case ReadTopic
    with assms show ?thesis by (auto split: sum.splits)
  qed
  then show "unique_words (doc iter') = unique_words (doc iter)"
    and "wordtopics_indices (doc iter') = wordtopics_indices (doc iter)"
    and "length (wordtopics (doc iter')) = length (wordtopics (doc iter))"
    and "length (topic_histogram (doc iter')) = length (topic_histogram (doc iter))"
    by simp_all
qed

lemma run_frame:
  "run ops iter = Inr iter' \<Longrightarrow>
     unique_words (doc iter') = unique_words (doc iter) \<and>
     wordtopics_indices (doc iter') = wordtopics_indices (doc iter) \<and>
     length (wordtopics (doc iter')) = length (wordtopics (doc iter)) \<and>
     length (topic_histogram (doc iter')) = length (topic_histogram (doc iter))"
proof (induction ops arbitrary: iter)
  case Nil
  then show ?case by simp
next
  case (Cons x xs)
  then obtain it1 where s: "step x iter = Inr it1" and r: "run xs it1 = Inr iter'"
    by (auto split: sum.splits)
  from Cons.IH [OF r] step_frame [OF s] show ?case by simp
qed

lemma step_reads:
  assumes "step x iter = Inr iter'" "x \<noteq> Advance" "\<forall>t. x \<noteq> SetTo t"
  shows "iter' = iter"
  using assms by (cases x) (auto split: sum.splits)

text \<open>
  On a reachable cursor the test after the increment in \<open>Next\<close> always succeeds: the
  entry read at the word's ordinal plus one is at most that number, which is the new
  position. Both indices advance together, and the walk is over after as many advances
  as the document has distinct words.
\<close>

lemma advance_to:
  assumes "cursor_inv iter" "unique_word_index iter + n \<le> length (unique_words (doc iter))"
  shows "run (replicate n Advance) iter =
           Inr (iter\<lparr>word_topic_index := unique_word_index iter + n,
                     unique_word_index := unique_word_index iter + n\<rparr>)"
  using assms
proof (induction n arbitrary: iter)
  case 0
  then show ?case by (simp add: cursor_inv_def)
next
  case (Suc n)
  let ?it = "iter\<lparr>word_topic_index := unique_word_index iter + 1,
                  unique_word_index := unique_word_index iter + 1\<rparr>"
  have lt: "unique_word_index iter < length (unique_words (doc iter))" using Suc.prems by simp
  have nx: "Next iter = Inr ?it" using Next_returns [OF Suc.prems(1) lt] .
  have inv: "cursor_inv ?it" using Next_inv(1) [OF Suc.prems(1) nx] .
  have "unique_word_index ?it + n \<le> length (unique_words (doc ?it))" using Suc.prems by simp
  from Suc.IH [OF inv this] nx show ?case by simp
qed

lemma cursor_done_after_words:
  assumes "NewDocument text K = Inr d" and "NewWordIterator (Some d) = Inr iter0"
  shows "run (replicate (length (unique_words d)) Advance) iter0 =
           Inr (iter0\<lparr>word_topic_index := length (unique_words d),
                      unique_word_index := length (unique_words d)\<rparr>)"
    and "Done (iter0\<lparr>word_topic_index := length (unique_words d),
                      unique_word_index := length (unique_words d)\<rparr>) = Inr True"
proof -
  note o = opened_inv [OF assms]
  show "run (replicate (length (unique_words d)) Advance) iter0 =
           Inr (iter0\<lparr>word_topic_index := length (unique_words d),
                      unique_word_index := length (unique_words d)\<rparr>)"
    using advance_to [OF o(1), of "length (unique_words d)"] o(2,3) by simp
  show "Done (iter0\<lparr>word_topic_index := length (unique_words d),
                      unique_word_index := length (unique_words d)\<rparr>) = Inr True"
    using o(2) by (simp add: Done_def)
qed

text \<open>
  \<open>Next\<close> on the layout it reads, a start per distinct word closed by N: on the
  document of \<open>The cat sat on the Mat.\<close> with the offsets 0, 1, 2, 3, 4, 6 the walk
  is not over after 5 advances, the cursor is then at position 5 on the word \<open>the\<close>,
  and it is over after the 6th.
\<close>

lemma walk_on_closed_offsets:
  "run (replicate 5 Advance)
     \<lparr>doc = \<lparr>unique_words = [''cat'', ''mat'', ''on'', ''sat'', ''the''],
             wordtopics_indices = [0, 1, 2, 3, 4, 6],
             wordtopics = [0, 0, 0, 0, 0, 0], topic_histogram = [6, 0, 0]\<rparr>,
      unique_word_index = 0, word_topic_index = 0\<rparr> =
     Inr \<lparr>doc = \<lparr>unique_words = [''cat'', ''mat'', ''on'', ''sat'', ''the''],
                 wordtopics_indices = [0, 1, 2, 3, 4, 6],
                 wordtopics = [0, 0, 0, 0, 0, 0], topic_histogram = [6, 0, 0]\<rparr>,
          unique_word_index = 4, word_topic_index = 5\<rparr> \<and>
   Word \<lparr>doc = \<lparr>unique_words = [''cat'', ''mat'', ''on'', ''sat'', ''the''],
                 wordtopics_indices = [0, 1, 2, 3, 4, 6],
                 wordtopics = [0, 0, 0, 0, 0, 0], topic_histogram = [6, 0, 0]\<rparr>,
          unique_word_index = 4, word_topic_index = 5\<rparr> = Inr ''the'' \<and>
   run (replicate 6 Advance)
     \<lparr>doc = \<lparr>unique_words = [''cat'', ''mat'', ''on'', ''sat'', ''the''],
             wordtopics_indices = [0, 1, 2, 3, 4, 6],
             wordtopics = [0, 0, 0, 0, 0, 0], topic_histogram = [6, 0, 0]\<rparr>,
      unique_word_index = 0, word_topic_index = 0\<rparr> =
     Inr \<lparr>doc = \<lparr>unique_words = [''cat'', ''mat'', ''on'', ''sat'', ''the''],
                 wordtopics_indices = [0, 1, 2, 3, 4, 6],
                 wordtopics = [0, 0, 0, 0, 0, 0], topic_histogram = [6, 0, 0]\<rparr>,
          unique_word_index = 5, word_topic_index = 6\<rparr> \<and>
   Done \<lparr>doc = \<lparr>unique_words = [''cat'', ''mat'', ''on'', ''sat'', ''the''],
                 wordtopics_indices = [0, 1, 2, 3, 4, 6],
                 wordtopics = [0, 0, 0, 0, 0, 0], topic_histogram = [6, 0, 0]\<rparr>,
          unique_word_index = 5, word_topic_index = 6\<rparr> = Inr True"
  by code_simp

section \<open>Loading\<close>

lemma read_loop_feed:
  "read_loop K False corpus l rest fin = at_end fin (feed_lines K corpus (l # map fst rest))"
  by (induction rest arbitrary: corpus l) (auto simp: at_end_def split: sum.splits)

lemma LoadCorpus_feed:
  "LoadCorpus (Some (map (\<lambda>l. (l, False)) ls, fin)) K = at_end fin (feed_lines K [] ls)"
proof -
  have m: "map fst (map (\<lambda>l. (l, False)) xs) = xs" for xs :: "string list"
    by (induction xs) auto
  show ?thesis
  proof (cases ls)
    case Nil
    then show ?thesis by (simp add: LoadCorpus_def NewCorpus_def at_end_def)
  next
    case (Cons a list)
    then have "LoadCorpus (Some (map (\<lambda>l. (l, False)) ls, fin)) K =
                 read_loop K False [] a (map (\<lambda>l. (l, False)) list) fin"
      by (simp add: LoadCorpus_def NewCorpus_def)
    also have "\<dots> = at_end fin (feed_lines K [] (a # map fst (map (\<lambda>l. (l, False)) list)))"
      by (rule read_loop_feed)
    also have "\<dots> = at_end fin (feed_lines K [] ls)"
      by (simp only: m Cons)
    finally show ?thesis .
  qed
qed

lemma feed_lines_skip:
  "feed_lines K corpus (filter (\<lambda>l. 15 < length l) ls) = feed_lines K corpus ls"
  by (induction ls arbitrary: corpus) (auto simp: add_line_def split: sum.splits)

lemma feed_lines_all:
  "\<forall>l \<in> set ls. 15 < length l \<longrightarrow> NewDocument l K = Inr (f l) \<Longrightarrow>
   feed_lines K corpus ls = Inr (corpus @ map f (filter (\<lambda>l. 15 < length l) ls))"
  by (induction ls arbitrary: corpus) (auto simp: add_line_def)

lemma feed_lines_append:
  "feed_lines K corpus (xs @ ys) =
     (case feed_lines K corpus xs of Inl f \<Rightarrow> Inl f | Inr corpus' \<Rightarrow> feed_lines K corpus' ys)"
  by (induction xs arbitrary: corpus) (auto split: sum.splits)

lemma feed_lines_fatal:
  assumes "\<forall>l' \<in> set pre. 15 < length l' \<longrightarrow> (\<exists>d. NewDocument l' K = Inr d)"
    and "15 < length l" "NewDocument l K = Inl (Returned e)"
  shows "feed_lines K corpus (pre @ l # post) = Inl (Panicked (CannotCreateDocument l e))"
proof -
  define f where "f = (\<lambda>l'. projr (NewDocument l' K))"
  have "\<forall>l' \<in> set pre. 15 < length l' \<longrightarrow> NewDocument l' K = Inr (f l')"
    using assms(1) by (auto simp: f_def)
  from feed_lines_all [OF this] show ?thesis
    using assms(2,3) by (simp add: feed_lines_append add_line_def)
qed

text \<open>
  \<open>is_prefix\<close> is read from the first line only: a later line that did not fit the
  buffer comes as two lines and both are taken as documents.
\<close>

lemma later_long_line_not_reported:
  "LoadCorpus (Some ([(''this line is long enough'', False),
                      (''the beginning of a line longer than the buffer'', True),
                      (''and the rest of it'', False)], EOF)) 2 =
     Inr [\<lparr>unique_words = [''enough'', ''is'', ''line'', ''long'', ''this''],
           wordtopics_indices = [0, 1, 2, 3, 4], wordtopics = [0, 0, 0, 0, 0],
           topic_histogram = [5, 0]\<rparr>,
          \<lparr>unique_words = [''a'', ''beginning'', ''buffer'', ''line'', ''longer'', ''of'',
                           ''than'', ''the''],
           wordtopics_indices = [0, 1, 2, 3, 4, 5, 6, 7, 7],
           wordtopics = [0, 0, 0, 0, 0, 0, 0, 0, 0], topic_histogram = [9, 0]\<rparr>,
          \<lparr>unique_words = [''and'', ''it'', ''of'', ''rest'', ''the''],
           wordtopics_indices = [0, 1, 2, 3, 4], wordtopics = [0, 0, 0, 0, 0],
           topic_histogram = [5, 0]\<rparr>]"
  by code_simp

section \<open>The claims\<close>

text \<open>
  C1. The claim: a cursor visits exactly N occurrences, each once, and \<open>Done\<close> becomes
  true only after the N-th \<open>Next\<close>. The code at the text \<open>The cat sat on the Mat.\<close>
  with 3 topics: the document has N = 6 occurrences and 5 distinct words; after 5 calls
  of \<open>Next\<close> the cursor is at position 5 and \<open>Done\<close> is true, so the occurrence at
  position 5 is never visited, and a 6th \<open>Next\<close> panics.
\<close>

theorem cursor_stops_early:
  "open_on ''The cat sat on the Mat.'' 3 =
     Inr \<lparr>doc = \<lparr>unique_words = [''cat'', ''mat'', ''on'', ''sat'', ''the''],
                 wordtopics_indices = [0, 1, 2, 3, 4, 4],
                 wordtopics = [0, 0, 0, 0, 0, 0], topic_histogram = [6, 0, 0]\<rparr>,
          unique_word_index = 0, word_topic_index = 0\<rparr> \<and>
   run (replicate 5 Advance)
     \<lparr>doc = \<lparr>unique_words = [''cat'', ''mat'', ''on'', ''sat'', ''the''],
             wordtopics_indices = [0, 1, 2, 3, 4, 4],
             wordtopics = [0, 0, 0, 0, 0, 0], topic_histogram = [6, 0, 0]\<rparr>,
      unique_word_index = 0, word_topic_index = 0\<rparr> =
     Inr \<lparr>doc = \<lparr>unique_words = [''cat'', ''mat'', ''on'', ''sat'', ''the''],
                 wordtopics_indices = [0, 1, 2, 3, 4, 4],
                 wordtopics = [0, 0, 0, 0, 0, 0], topic_histogram = [6, 0, 0]\<rparr>,
          unique_word_index = 5, word_topic_index = 5\<rparr> \<and>
   Done \<lparr>doc = \<lparr>unique_words = [''cat'', ''mat'', ''on'', ''sat'', ''the''],
                 wordtopics_indices = [0, 1, 2, 3, 4, 4],
                 wordtopics = [0, 0, 0, 0, 0, 0], topic_histogram = [6, 0, 0]\<rparr>,
          unique_word_index = 5, word_topic_index = 5\<rparr> = Inr True \<and>
   run (replicate 6 Advance)
     \<lparr>doc = \<lparr>unique_words = [''cat'', ''mat'', ''on'', ''sat'', ''the''],
             wordtopics_indices = [0, 1, 2, 3, 4, 4],
             wordtopics = [0, 0, 0, 0, 0, 0], topic_histogram = [6, 0, 0]\<rparr>,
      unique_word_index = 0, word_topic_index = 0\<rparr> = Inl CalledWhenDone \<and>
   Length \<lparr>unique_words = [''cat'', ''mat'', ''on'', ''sat'', ''the''],
           wordtopics_indices = [0, 1, 2, 3, 4, 4],
           wordtopics = [0, 0, 0, 0, 0, 0], topic_histogram = [6, 0, 0]\<rparr> = 6"
  by code_simp

text \<open>
  C2. The claim: the offsets of a built document are U + 1 non-negative integers in
  non-decreasing order, the first one 0 and the last one N, and for
  \<open>The cat sat on the Mat.\<close> with 3 topics they are 0, 1, 2, 3, 4, 6. The code at
  this text: the distinct words are cat, mat, on, sat, the, and \<open>wordtopics_indices\<close>
  is 0, 1, 2, 3, 4, 4, whose last entry is the start of the group of \<open>the\<close> and not
  N = 6. At the text \<open>a a a\<close> with 2 topics there are 3 entries for U = 1 distinct
  word, not U + 1 = 2, and the last one is 0, not N = 3.
\<close>

theorem offsets_without_sentinel:
  "NewDocument ''The cat sat on the Mat.'' 3 =
     Inr \<lparr>unique_words = [''cat'', ''mat'', ''on'', ''sat'', ''the''],
          wordtopics_indices = [0, 1, 2, 3, 4, 4],
          wordtopics = [0, 0, 0, 0, 0, 0], topic_histogram = [6, 0, 0]\<rparr> \<and>
   [0, 1, 2, 3, 4, 4] \<noteq> [0, 1, 2, 3, 4, 6 :: int] \<and>
   last [0, 1, 2, 3, 4, 4 :: int] \<noteq> int (length [0, 0, 0, 0, 0, 0 :: int]) \<and>
   NewDocument ''a a a'' 2 =
     Inr \<lparr>unique_words = [''a''], wordtopics_indices = [0, 0, 0],
          wordtopics = [0, 0, 0], topic_histogram = [3, 0]\<rparr> \<and>
   length [0, 0, 0 :: int] \<noteq> length [''a''] + 1 \<and>
   last [0, 0, 0 :: int] \<noteq> int (length [0, 0, 0 :: int])"
  by code_simp

text \<open>
  C3. For a document built from a text and a cursor opened on it, after every sequence of
  cursor operations that run without a panic, and after every prefix of it, the histogram
  has K entries, entry t is the number of labels equal to t for every topic t from 0 to
  K - 1, and the entries sum to N. Right after construction all labels are 0 and entry
  0 is N.
\<close>

theorem histogram_counts_labels:
  assumes "NewDocument text K = Inr d" and "NewWordIterator (Some d) = Inr iter0"
    and "run ops iter0 = Inr iter"
  shows "wordtopics d = replicate (length (tokens text)) 0 \<and>
         topic_histogram d ! 0 = int (length (tokens text)) \<and>
         (\<forall>n \<le> length ops. \<exists>it.
            run (take n ops) iter0 = Inr it \<and>
            length (wordtopics (doc it)) = length (tokens text) \<and>
            length (topic_histogram (doc it)) = nat K \<and>
            (\<forall>t. 0 \<le> t \<and> t < K \<longrightarrow>
               topic_histogram (doc it) ! nat t = int (count_list (wordtopics (doc it)) t)) \<and>
            sum_list (topic_histogram (doc it)) = int (length (tokens text)))"
proof -
  note b = NewDocument_built [OF assms(1)]
  note o = opened_inv [OF assms(1,2)]
  have len: "length (sorted_tokens text) = length (tokens text)" by (simp add: sorted_tokens_def)
  have K: "0 < nat K" using b(1) by simp
  have 1: "wordtopics d = replicate (length (tokens text)) 0" using b(5) len by simp
  have 2: "topic_histogram d ! 0 = int (length (tokens text))" using b(6) len K by simp
  have 3: "\<exists>it. run (take n ops) iter0 = Inr it \<and>
            length (wordtopics (doc it)) = length (tokens text) \<and>
            length (topic_histogram (doc it)) = nat K \<and>
            (\<forall>t. 0 \<le> t \<and> t < K \<longrightarrow>
               topic_histogram (doc it) ! nat t = int (count_list (wordtopics (doc it)) t)) \<and>
            sum_list (topic_histogram (doc it)) = int (length (tokens text))" for n
  proof -
    from run_take [OF assms(3)] obtain it where r: "run (take n ops) iter0 = Inr it" by blast
    have inv: "cursor_inv it" using run_inv [OF o(1) r] .
    have lw: "length (wordtopics (doc it)) = length (tokens text)"
      using run_frame [OF r] o(2) 1 by simp
    have lh: "length (topic_histogram (doc it)) = nat K"
      using run_frame [OF r] o(2) b(6) by simp
    have c: "topic_histogram (doc it) ! nat t = int (count_list (wordtopics (doc it)) t)"
      if "0 \<le> t \<and> t < K" for t
    proof -
      have "nat t < length (topic_histogram (doc it))" using that lh by simp
      with inv have "topic_histogram (doc it) ! nat t
                       = int (count_list (wordtopics (doc it)) (int (nat t)))"
        unfolding cursor_inv_def by blast
      with that show ?thesis by simp
    qed
    have s: "sum_list (topic_histogram (doc it)) = int (length (tokens text))"
      using inv lw by (simp add: cursor_inv_def)
    from r lw lh c s show ?thesis by blast
  qed
  from 1 2 3 show ?thesis by blast
qed

theorem histogram_counts_labels_witness:
  "NewDocument ''a a b'' 2 =
     Inr \<lparr>unique_words = [''a'', ''b''], wordtopics_indices = [0, 0, 2],
          wordtopics = [0, 0, 0], topic_histogram = [3, 0]\<rparr> \<and>
   NewWordIterator (Some \<lparr>unique_words = [''a'', ''b''], wordtopics_indices = [0, 0, 2],
          wordtopics = [0, 0, 0], topic_histogram = [3, 0]\<rparr>) =
     Inr \<lparr>doc = \<lparr>unique_words = [''a'', ''b''], wordtopics_indices = [0, 0, 2],
                 wordtopics = [0, 0, 0], topic_histogram = [3, 0]\<rparr>,
          unique_word_index = 0, word_topic_index = 0\<rparr> \<and>
   run [SetTo 1, Advance]
     \<lparr>doc = \<lparr>unique_words = [''a'', ''b''], wordtopics_indices = [0, 0, 2],
             wordtopics = [0, 0, 0], topic_histogram = [3, 0]\<rparr>,
      unique_word_index = 0, word_topic_index = 0\<rparr> =
     Inr \<lparr>doc = \<lparr>unique_words = [''a'', ''b''], wordtopics_indices = [0, 0, 2],
                 wordtopics = [1, 0, 0], topic_histogram = [2, 1]\<rparr>,
          unique_word_index = 1, word_topic_index = 1\<rparr> \<and>
   [2, 1] ! nat 1 = int (count_list [1, 0, 0 :: int] 1) \<and>
   sum_list [2, 1 :: int] = int (length (tokens ''a a b''))"
proof -
  let ?start = "\<lparr>doc = \<lparr>unique_words = [''a'', ''b''], wordtopics_indices = [0, 0, 2],
                 wordtopics = [0, 0, 0], topic_histogram = [3, 0]\<rparr>,
          unique_word_index = 0, word_topic_index = 0\<rparr>"
  let ?final = "\<lparr>doc = \<lparr>unique_words = [''a'', ''b''], wordtopics_indices = [0, 0, 2],
                 wordtopics = [1, 0, 0], topic_histogram = [2, 1]\<rparr>,
          unique_word_index = 1, word_topic_index = 1\<rparr>"
  have h1: "NewDocument ''a a b'' 2 =
     Inr \<lparr>unique_words = [''a'', ''b''], wordtopics_indices = [0, 0, 2],
          wordtopics = [0, 0, 0], topic_histogram = [3, 0]\<rparr>"
    by code_simp
  have h2: "NewWordIterator (Some \<lparr>unique_words = [''a'', ''b''], wordtopics_indices = [0, 0, 2],
          wordtopics = [0, 0, 0], topic_histogram = [3, 0]\<rparr>) = Inr ?start"
    by code_simp
  have h3: "run [SetTo 1, Advance] ?start = Inr ?final"
    by code_simp
  from histogram_counts_labels [OF h1 h2 h3, THEN conjunct2, THEN conjunct2]
  have a: "\<forall>n \<le> length [SetTo 1, Advance]. \<exists>it.
            run (take n [SetTo 1, Advance]) ?start = Inr it \<and>
            length (wordtopics (doc it)) = length (tokens ''a a b'') \<and>
            length (topic_histogram (doc it)) = nat 2 \<and>
            (\<forall>t. 0 \<le> t \<and> t < 2 \<longrightarrow>
               topic_histogram (doc it) ! nat t = int (count_list (wordtopics (doc it)) t)) \<and>
            sum_list (topic_histogram (doc it)) = int (length (tokens ''a a b''))"
    .
  have "2 \<le> length [SetTo 1, Advance]" by simp
  with a obtain it where r: "run (take 2 [SetTo 1, Advance]) ?start = Inr it"
    and c: "\<forall>t. 0 \<le> t \<and> t < 2 \<longrightarrow>
               topic_histogram (doc it) ! nat t = int (count_list (wordtopics (doc it)) t)"
    and s: "sum_list (topic_histogram (doc it)) = int (length (tokens ''a a b''))"
    by blast
  from r h3 have it: "it = ?final" by simp
  have "(0::int) \<le> 1 \<and> (1::int) < 2" by simp
  with c have "topic_histogram (doc it) ! nat 1 = int (count_list (wordtopics (doc it)) 1)"
    by blast
  with s it h1 h2 h3 show ?thesis by simp
qed

text \<open>
  C4. The claim: at each stop of a walk the word reported is the distinct word that owns
  the occurrence at the cursor's position. The code at the text \<open>a a b\<close> with 2 topics:
  after one \<open>Next\<close> the cursor is at position 1, whose occurrence is the second
  \<open>a\<close> of the sorted words, and \<open>Word\<close> reports \<open>b\<close>.
\<close>

theorem cursor_word_mismatch:
  "open_on ''a a b'' 2 =
     Inr \<lparr>doc = \<lparr>unique_words = [''a'', ''b''], wordtopics_indices = [0, 0, 2],
                 wordtopics = [0, 0, 0], topic_histogram = [3, 0]\<rparr>,
          unique_word_index = 0, word_topic_index = 0\<rparr> \<and>
   run [Advance]
     \<lparr>doc = \<lparr>unique_words = [''a'', ''b''], wordtopics_indices = [0, 0, 2],
             wordtopics = [0, 0, 0], topic_histogram = [3, 0]\<rparr>,
      unique_word_index = 0, word_topic_index = 0\<rparr> =
     Inr \<lparr>doc = \<lparr>unique_words = [''a'', ''b''], wordtopics_indices = [0, 0, 2],
                 wordtopics = [0, 0, 0], topic_histogram = [3, 0]\<rparr>,
          unique_word_index = 1, word_topic_index = 1\<rparr> \<and>
   Word \<lparr>doc = \<lparr>unique_words = [''a'', ''b''], wordtopics_indices = [0, 0, 2],
                 wordtopics = [0, 0, 0], topic_histogram = [3, 0]\<rparr>,
          unique_word_index = 1, word_topic_index = 1\<rparr> = Inr ''b'' \<and>
   sorted_tokens ''a a b'' = [''a'', ''a'', ''b''] \<and>
   sorted_tokens ''a a b'' ! 1 = ''a''"
  by code_simp

text \<open>
  C5. \<open>NewDocument\<close> returns an error, and no document, exactly when \<open>num_topics\<close> is
  less than 2 or the text has fewer than 2 words after normalisation (deletion of the
  symbols, lower case, splitting at white space); otherwise it returns a document. The
  error is the one for the topic count when that is too small, else the one for the words.
  The empty text and the text \<open>single\<close> have fewer than 2 words and give no document
  for any topic count, and \<open>a b\<close> with 1 topic fails.
\<close>

theorem NewDocument_fails_iff:
  "((\<exists>e. NewDocument text num_topics = Inl (Returned e)) \<longleftrightarrow>
      num_topics < 2 \<or> length (tokens text) < 2) \<and>
   ((\<exists>d. NewDocument text num_topics = Inr d) \<longleftrightarrow>
      \<not> (num_topics < 2 \<or> length (tokens text) < 2)) \<and>
   (num_topics < 2 \<longrightarrow> NewDocument text num_topics = Inl (Returned NumTopicsTooSmall)) \<and>
   (\<not> num_topics < 2 \<and> length (tokens text) < 2 \<longrightarrow>
      NewDocument text num_topics = Inl (Returned (TooFewWords text))) \<and>
   tokens [] = [] \<and> tokens ''single'' = [''single''] \<and> tokens ''a b'' = [''a'', ''b''] \<and>
   NewDocument [] num_topics \<noteq> Inr d \<and> NewDocument ''single'' num_topics \<noteq> Inr d \<and>
   NewDocument ''a b'' 1 = Inl (Returned NumTopicsTooSmall)"
proof -
  have t1: "tokens [] = []" by code_simp
  have t2: "tokens ''single'' = [''single'']" by code_simp
  have t3: "tokens ''a b'' = [''a'', ''b'']" by code_simp
  show ?thesis
  proof (cases "num_topics < 2 \<or> length (tokens text) < 2")
    case True
    from NewDocument_failure [OF this] True show ?thesis
      using NewDocument_failure [of num_topics "[]"] NewDocument_failure [of num_topics "''single''"]
        NewDocument_failure [of 1 "''a b''"] t1 t2 t3
      by (auto split: if_splits)
  next
    case False
    then have "1 < num_topics" "1 < length (tokens text)" by auto
    from NewDocument_success [OF this] False show ?thesis
      using NewDocument_failure [of num_topics "[]"] NewDocument_failure [of num_topics "''single''"]
        NewDocument_failure [of 1 "''a b''"] t1 t2 t3
      by (auto split: if_splits)
  qed
qed

theorem NewDocument_fails_iff_witness:
  "(1::int) < 2 \<and> NewDocument ''a b'' 1 = Inl (Returned NumTopicsTooSmall) \<and>
   \<not> (2::int) < 2 \<and> length (tokens ''single'') < 2 \<and>
   NewDocument ''single'' 2 = Inl (Returned (TooFewWords ''single''))"
  using NewDocument_fails_iff [of "''a b''" 1] NewDocument_fails_iff [of "''single''" 2]
  by simp

text \<open>
  C6, amended. When the first line read did not fit the buffer, loading returns the
  long-line error. For a source whose lines all fit: a line of at most 15 bytes is
  skipped, that is, loading gives the same result as without these lines; when every
  line longer than 15 bytes builds a document, the result is the list of these
  documents in the order of the lines if the reading ended at the end of the file, and
  the reading error otherwise; and the first line longer than 15 bytes for which
  \<open>NewDocument\<close> returns an error stops the loading with a panic that carries the line
  and the error.
\<close>

theorem LoadCorpus_lines:
  "LoadCorpus (Some ((l, True) # rest, fin)) K = Inl (Returned (LongLine l)) \<and>
   LoadCorpus (Some (map (\<lambda>l. (l, False)) ls, fin)) K =
     LoadCorpus (Some (map (\<lambda>l. (l, False)) (filter (\<lambda>l. 15 < length l) ls), fin)) K \<and>
   ((\<forall>l \<in> set ls. 15 < length l \<longrightarrow> NewDocument l K = Inr (f l)) \<longrightarrow>
      LoadCorpus (Some (map (\<lambda>l. (l, False)) ls, fin)) K =
        (if fin = EOF then Inr (map f (filter (\<lambda>l. 15 < length l) ls))
         else Inl (Returned ReadingError))) \<and>
   ((\<forall>l' \<in> set pre. 15 < length l' \<longrightarrow> (\<exists>d. NewDocument l' K = Inr d)) \<and>
    15 < length l \<and> NewDocument l K = Inl (Returned e) \<longrightarrow>
      LoadCorpus (Some (map (\<lambda>l. (l, False)) (pre @ l # post), fin)) K =
        Inl (Panicked (CannotCreateDocument l e)))"
proof -
  have 1: "LoadCorpus (Some ((l, True) # rest, fin)) K = Inl (Returned (LongLine l))"
    by (cases rest) (auto simp: LoadCorpus_def)
  have 2: "LoadCorpus (Some (map (\<lambda>l. (l, False)) ls, fin)) K =
     LoadCorpus (Some (map (\<lambda>l. (l, False)) (filter (\<lambda>l. 15 < length l) ls), fin)) K"
    unfolding LoadCorpus_feed feed_lines_skip ..
  have 3: "LoadCorpus (Some (map (\<lambda>l. (l, False)) ls, fin)) K =
        (if fin = EOF then Inr (map f (filter (\<lambda>l. 15 < length l) ls))
         else Inl (Returned ReadingError))"
    if "\<forall>l \<in> set ls. 15 < length l \<longrightarrow> NewDocument l K = Inr (f l)"
    unfolding LoadCorpus_feed feed_lines_all [OF that] by (simp add: at_end_def)
  have 4: "LoadCorpus (Some (map (\<lambda>l. (l, False)) (pre @ l # post), fin)) K =
        Inl (Panicked (CannotCreateDocument l e))"
    if "\<forall>l' \<in> set pre. 15 < length l' \<longrightarrow> (\<exists>d. NewDocument l' K = Inr d)"
      "15 < length l" "NewDocument l K = Inl (Returned e)"
    unfolding LoadCorpus_feed feed_lines_fatal [OF that] by (simp add: at_end_def)
  from 1 2 3 4 show ?thesis by blast
qed

theorem LoadCorpus_lines_witness:
  "\<not> 15 < length ''hi'' \<and> 15 < length ''this line is long enough'' \<and>
   NewDocument ''this line is long enough'' 2 =
     Inr \<lparr>unique_words = [''enough'', ''is'', ''line'', ''long'', ''this''],
          wordtopics_indices = [0, 1, 2, 3, 4], wordtopics = [0, 0, 0, 0, 0],
          topic_histogram = [5, 0]\<rparr> \<and>
   LoadCorpus (Some ([(''hi'', False), (''this line is long enough'', False)], EOF)) 2 =
     Inr [\<lparr>unique_words = [''enough'', ''is'', ''line'', ''long'', ''this''],
           wordtopics_indices = [0, 1, 2, 3, 4], wordtopics = [0, 0, 0, 0, 0],
           topic_histogram = [5, 0]\<rparr>] \<and>
   15 < length ''aaaaaaaaaaaaaaaaaaaa'' \<and>
   NewDocument ''aaaaaaaaaaaaaaaaaaaa'' 2 = Inl (Returned (TooFewWords ''aaaaaaaaaaaaaaaaaaaa'')) \<and>
   LoadCorpus (Some ([(''hi'', False), (''aaaaaaaaaaaaaaaaaaaa'', False),
                      (''this line is long enough'', False)], EOF)) 2 =
     Inl (Panicked (CannotCreateDocument ''aaaaaaaaaaaaaaaaaaaa''
                      (TooFewWords ''aaaaaaaaaaaaaaaaaaaa''))) \<and>
   LoadCorpus (Some ([(''aaaaaaaaaaaaaaaaaaaa'', True)], EOF)) 2 =
     Inl (Returned (LongLine ''aaaaaaaaaaaaaaaaaaaa''))"
proof -
  let ?D = "\<lparr>unique_words = [''enough'', ''is'', ''line'', ''long'', ''this''],
             wordtopics_indices = [0, 1, 2, 3, 4], wordtopics = [0, 0, 0, 0, 0],
             topic_histogram = [5, 0]\<rparr>"
  have d: "NewDocument ''this line is long enough'' 2 = Inr ?D"
    by code_simp
  have e: "NewDocument ''aaaaaaaaaaaaaaaaaaaa'' 2 = Inl (Returned (TooFewWords ''aaaaaaaaaaaaaaaaaaaa''))"
    by code_simp
  have h1: "\<forall>l \<in> set [''hi'', ''this line is long enough''].
      15 < length l \<longrightarrow> NewDocument l 2 = Inr ((\<lambda>_. ?D) l)"
    using d by simp
  have h2: "(\<forall>l' \<in> set [''hi'']. 15 < length l' \<longrightarrow> (\<exists>d. NewDocument l' 2 = Inr d)) \<and>
    15 < length ''aaaaaaaaaaaaaaaaaaaa'' \<and>
    NewDocument ''aaaaaaaaaaaaaaaaaaaa'' 2 = Inl (Returned (TooFewWords ''aaaaaaaaaaaaaaaaaaaa''))"
    using e by simp
  note t = LoadCorpus_lines
         [of "''aaaaaaaaaaaaaaaaaaaa''" "[]" EOF 2 "[''hi'', ''this line is long enough'']"
             "\<lambda>_. ?D" "[''hi'']" "TooFewWords ''aaaaaaaaaaaaaaaaaaaa''"
             "[''this line is long enough'']"]
  from t have a: "LoadCorpus (Some ([(''aaaaaaaaaaaaaaaaaaaa'', True)], EOF)) 2 =
     Inl (Returned (LongLine ''aaaaaaaaaaaaaaaaaaaa''))"
    by blast
  from t h1 have "LoadCorpus (Some (map (\<lambda>l. (l, False)) [''hi'', ''this line is long enough''], EOF)) 2 =
        (if EOF = EOF then Inr (map (\<lambda>_. ?D) (filter (\<lambda>l. 15 < length l) [''hi'', ''this line is long enough'']))
         else Inl (Returned ReadingError))"
    by blast
  then have b: "LoadCorpus (Some ([(''hi'', False), (''this line is long enough'', False)], EOF)) 2 =
     Inr [?D]"
    by simp
  from t h2 have "LoadCorpus (Some (map (\<lambda>l. (l, False))
        ([''hi''] @ ''aaaaaaaaaaaaaaaaaaaa'' # [''this line is long enough'']), EOF)) 2 =
        Inl (Panicked (CannotCreateDocument ''aaaaaaaaaaaaaaaaaaaa''
                      (TooFewWords ''aaaaaaaaaaaaaaaaaaaa'')))"
    by blast
  then have c: "LoadCorpus (Some ([(''hi'', False), (''aaaaaaaaaaaaaaaaaaaa'', False),
                      (''this line is long enough'', False)], EOF)) 2 =
     Inl (Panicked (CannotCreateDocument ''aaaaaaaaaaaaaaaaaaaa''
                      (TooFewWords ''aaaaaaaaaaaaaaaaaaaa'')))"
    by simp
  have "\<not> 15 < length ''hi''" "15 < length ''this line is long enough''"
    "15 < length ''aaaaaaaaaaaaaaaaaaaa''" by simp_all
  with a b c d e show ?thesis by blast
qed

text \<open>
  The claim as stated fails at the threshold: a line of exactly 15 bytes that would
  build a document is skipped, and the corpus is empty.
\<close>

theorem LoadCorpus_counterexample:
  "length ''aaaa bbbb ccccc'' = 15 \<and>
   NewDocument ''aaaa bbbb ccccc'' 2 =
     Inr \<lparr>unique_words = [''aaaa'', ''bbbb'', ''ccccc''], wordtopics_indices = [0, 1, 2],
          wordtopics = [0, 0, 0], topic_histogram = [3, 0]\<rparr> \<and>
   LoadCorpus (Some ([(''aaaa bbbb ccccc'', False)], EOF)) 2 = Inr []"
  by code_simp

text \<open>
  C7. For a document built from a text, a cursor opened on it and any state the cursor
  reaches: when \<open>Topic\<close> returns t, \<open>SetTopic\<close> with t returns without a panic and
  leaves the histogram as it was (and the whole cursor and document with it).
\<close>

theorem relabel_same_topic:
  assumes "NewDocument text K = Inr d" and "NewWordIterator (Some d) = Inr iter0"
    and "run ops iter0 = Inr iter" and "Topic iter = Inr t"
  shows "\<exists>iter'. SetTopic t iter = Inr iter' \<and>
           topic_histogram (doc iter') = topic_histogram (doc iter) \<and> iter' = iter"
proof -
  have inv: "cursor_inv iter"
    using run_inv [OF opened_inv(1) [OF assms(1,2)] assms(3)] .
  note ti = Topic_inv [OF inv assms(4)]
  have nd: "Done iter = Inr False"
    using assms(4) by (auto simp: Topic_def split: sum.splits bool.splits)
  have "SetTopic t iter = Inr iter"
    using ti nd assms(4) by (simp add: SetTopic_def at_int_def Let_def)
  then show ?thesis by simp
qed

theorem relabel_same_topic_witness:
  "NewDocument ''a a b'' 2 =
     Inr \<lparr>unique_words = [''a'', ''b''], wordtopics_indices = [0, 0, 2],
          wordtopics = [0, 0, 0], topic_histogram = [3, 0]\<rparr> \<and>
   NewWordIterator (Some \<lparr>unique_words = [''a'', ''b''], wordtopics_indices = [0, 0, 2],
          wordtopics = [0, 0, 0], topic_histogram = [3, 0]\<rparr>) =
     Inr \<lparr>doc = \<lparr>unique_words = [''a'', ''b''], wordtopics_indices = [0, 0, 2],
                 wordtopics = [0, 0, 0], topic_histogram = [3, 0]\<rparr>,
          unique_word_index = 0, word_topic_index = 0\<rparr> \<and>
   run [SetTo 1]
     \<lparr>doc = \<lparr>unique_words = [''a'', ''b''], wordtopics_indices = [0, 0, 2],
             wordtopics = [0, 0, 0], topic_histogram = [3, 0]\<rparr>,
      unique_word_index = 0, word_topic_index = 0\<rparr> =
     Inr \<lparr>doc = \<lparr>unique_words = [''a'', ''b''], wordtopics_indices = [0, 0, 2],
                 wordtopics = [1, 0, 0], topic_histogram = [2, 1]\<rparr>,
          unique_word_index = 0, word_topic_index = 0\<rparr> \<and>
   Topic \<lparr>doc = \<lparr>unique_words = [''a'', ''b''], wordtopics_indices = [0, 0, 2],
                 wordtopics = [1, 0, 0], topic_histogram = [2, 1]\<rparr>,
          unique_word_index = 0, word_topic_index = 0\<rparr> = Inr 1 \<and>
   SetTopic 1 \<lparr>doc = \<lparr>unique_words = [''a'', ''b''], wordtopics_indices = [0, 0, 2],
                 wordtopics = [1, 0, 0], topic_histogram = [2, 1]\<rparr>,
          unique_word_index = 0, word_topic_index = 0\<rparr> =
     Inr \<lparr>doc = \<lparr>unique_words = [''a'', ''b''], wordtopics_indices = [0, 0, 2],
                 wordtopics = [1, 0, 0], topic_histogram = [2, 1]\<rparr>,
          unique_word_index = 0, word_topic_index = 0\<rparr>"
proof -
  have h1: "NewDocument ''a a b'' 2 =
     Inr \<lparr>unique_words = [''a'', ''b''], wordtopics_indices = [0, 0, 2],
          wordtopics = [0, 0, 0], topic_histogram = [3, 0]\<rparr>"
    by code_simp
  have h2: "NewWordIterator (Some \<lparr>unique_words = [''a'', ''b''], wordtopics_indices = [0, 0, 2],
          wordtopics = [0, 0, 0], topic_histogram = [3, 0]\<rparr>) =
     Inr \<lparr>doc = \<lparr>unique_words = [''a'', ''b''], wordtopics_indices = [0, 0, 2],
                 wordtopics = [0, 0, 0], topic_histogram = [3, 0]\<rparr>,
          unique_word_index = 0, word_topic_index = 0\<rparr>"
    by code_simp
  have h3: "run [SetTo 1]
     \<lparr>doc = \<lparr>unique_words = [''a'', ''b''], wordtopics_indices = [0, 0, 2],
             wordtopics = [0, 0, 0], topic_histogram = [3, 0]\<rparr>,
      unique_word_index = 0, word_topic_index = 0\<rparr> =
     Inr \<lparr>doc = \<lparr>unique_words = [''a'', ''b''], wordtopics_indices = [0, 0, 2],
                 wordtopics = [1, 0, 0], topic_histogram = [2, 1]\<rparr>,
          unique_word_index = 0, word_topic_index = 0\<rparr>"
    by code_simp
  have h4: "Topic \<lparr>doc = \<lparr>unique_words = [''a'', ''b''], wordtopics_indices = [0, 0, 2],
                 wordtopics = [1, 0, 0], topic_histogram = [2, 1]\<rparr>,
          unique_word_index = 0, word_topic_index = 0\<rparr> = Inr 1"
    by code_simp
  from relabel_same_topic [OF h1 h2 h3 h4] h1 h2 h3 h4 show ?thesis by simp
qed




text \<open>
  C9. For a document built from a text, a cursor opened on it and every sequence of
  cursor operations that runs without a panic: the distinct words, the offsets, the
  number of labels and the number of histogram entries are those of the document as
  built, and every further operation keeps them. \<open>Next\<close> and the two reads leave the
  document as it is; \<open>SetTopic\<close> leaves the cursor where it is, changes no label other
  than the one at the cursor's position and no histogram entry other than those of the
  old and of the new topic.
\<close>

theorem cursor_frame:
  assumes "NewDocument text K = Inr d" and "NewWordIterator (Some d) = Inr iter0"
    and "run ops iter0 = Inr iter"
  shows "unique_words (doc iter) = unique_words d \<and>
         wordtopics_indices (doc iter) = wordtopics_indices d \<and>
         length (wordtopics (doc iter)) = length (wordtopics d) \<and>
         length (topic_histogram (doc iter)) = length (topic_histogram d) \<and>
         (\<forall>x iter'. step x iter = Inr iter' \<longrightarrow>
            unique_words (doc iter') = unique_words (doc iter) \<and>
            wordtopics_indices (doc iter') = wordtopics_indices (doc iter) \<and>
            length (wordtopics (doc iter')) = length (wordtopics (doc iter)) \<and>
            length (topic_histogram (doc iter')) = length (topic_histogram (doc iter)) \<and>
            (x = Advance \<or> x = ReadWord \<or> x = ReadTopic \<longrightarrow> doc iter' = doc iter) \<and>
            (\<forall>new old. x = SetTo new \<and> Topic iter = Inr old \<longrightarrow>
               unique_word_index iter' = unique_word_index iter \<and>
               word_topic_index iter' = word_topic_index iter \<and>
               (\<forall>i. i \<noteq> word_topic_index iter \<longrightarrow>
                  wordtopics (doc iter') ! i = wordtopics (doc iter) ! i) \<and>
               (\<forall>t. t \<noteq> nat old \<and> t \<noteq> nat new \<longrightarrow>
                  topic_histogram (doc iter') ! t = topic_histogram (doc iter) ! t)))"
proof -
  have d0: "doc iter0 = d" using opened_inv(2) [OF assms(1,2)] .
  have a: "unique_words (doc iter) = unique_words d \<and>
         wordtopics_indices (doc iter) = wordtopics_indices d \<and>
         length (wordtopics (doc iter)) = length (wordtopics d) \<and>
         length (topic_histogram (doc iter)) = length (topic_histogram d)"
    using run_frame [OF assms(3)] d0 by simp
  have b: "unique_words (doc iter') = unique_words (doc iter) \<and>
            wordtopics_indices (doc iter') = wordtopics_indices (doc iter) \<and>
            length (wordtopics (doc iter')) = length (wordtopics (doc iter)) \<and>
            length (topic_histogram (doc iter')) = length (topic_histogram (doc iter))"
    if "step x iter = Inr iter'" for x iter'
    using step_frame [OF that] by simp
  have c: "doc iter' = doc iter"
    if "step x iter = Inr iter'" "x = Advance \<or> x = ReadWord \<or> x = ReadTopic" for x iter'
  proof (cases "x = Advance")
    case True
    with that(1) show ?thesis
      by (auto simp: Next_def Let_def split: sum.splits bool.splits if_splits)
  next
    case False
    with that have "iter' = iter" by (intro step_reads [of x]) auto
    then show ?thesis by simp
  qed
  have e: "unique_word_index iter' = unique_word_index iter \<and>
               word_topic_index iter' = word_topic_index iter \<and>
               (\<forall>i. i \<noteq> word_topic_index iter \<longrightarrow>
                  wordtopics (doc iter') ! i = wordtopics (doc iter) ! i) \<and>
               (\<forall>t. t \<noteq> nat old \<and> t \<noteq> nat new \<longrightarrow>
                  topic_histogram (doc iter') ! t = topic_histogram (doc iter) ! t)"
    if "step x iter = Inr iter'" "x = SetTo new" "Topic iter = Inr old" for x iter' new old
  proof -
    from that have "SetTopic new iter = Inr iter'" by simp
    from SetTopic_result [OF this] that(3) show ?thesis by auto
  qed
  from a b c e show ?thesis by blast
qed

theorem cursor_frame_witness:
  "NewDocument ''a a b'' 2 =
     Inr \<lparr>unique_words = [''a'', ''b''], wordtopics_indices = [0, 0, 2],
          wordtopics = [0, 0, 0], topic_histogram = [3, 0]\<rparr> \<and>
   NewWordIterator (Some \<lparr>unique_words = [''a'', ''b''], wordtopics_indices = [0, 0, 2],
          wordtopics = [0, 0, 0], topic_histogram = [3, 0]\<rparr>) =
     Inr \<lparr>doc = \<lparr>unique_words = [''a'', ''b''], wordtopics_indices = [0, 0, 2],
                 wordtopics = [0, 0, 0], topic_histogram = [3, 0]\<rparr>,
          unique_word_index = 0, word_topic_index = 0\<rparr> \<and>
   run [ReadWord, Advance, ReadTopic]
     \<lparr>doc = \<lparr>unique_words = [''a'', ''b''], wordtopics_indices = [0, 0, 2],
             wordtopics = [0, 0, 0], topic_histogram = [3, 0]\<rparr>,
      unique_word_index = 0, word_topic_index = 0\<rparr> =
     Inr \<lparr>doc = \<lparr>unique_words = [''a'', ''b''], wordtopics_indices = [0, 0, 2],
                 wordtopics = [0, 0, 0], topic_histogram = [3, 0]\<rparr>,
          unique_word_index = 1, word_topic_index = 1\<rparr> \<and>
   step (SetTo 1)
     \<lparr>doc = \<lparr>unique_words = [''a'', ''b''], wordtopics_indices = [0, 0, 2],
             wordtopics = [0, 0, 0], topic_histogram = [3, 0]\<rparr>,
      unique_word_index = 1, word_topic_index = 1\<rparr> =
     Inr \<lparr>doc = \<lparr>unique_words = [''a'', ''b''], wordtopics_indices = [0, 0, 2],
                 wordtopics = [0, 1, 0], topic_histogram = [2, 1]\<rparr>,
          unique_word_index = 1, word_topic_index = 1\<rparr> \<and>
   unique_words \<lparr>unique_words = [''a'', ''b''], wordtopics_indices = [0, 0, 2],
                 wordtopics = [0, 1, 0], topic_histogram = [2, 1]\<rparr> = [''a'', ''b''] \<and>
   wordtopics_indices \<lparr>unique_words = [''a'', ''b''], wordtopics_indices = [0, 0, 2],
                 wordtopics = [0, 1, 0], topic_histogram = [2, 1]\<rparr> = [0, 0, 2]"
proof -
  have h1: "NewDocument ''a a b'' 2 =
     Inr \<lparr>unique_words = [''a'', ''b''], wordtopics_indices = [0, 0, 2],
          wordtopics = [0, 0, 0], topic_histogram = [3, 0]\<rparr>"
    by code_simp
  have h2: "NewWordIterator (Some \<lparr>unique_words = [''a'', ''b''], wordtopics_indices = [0, 0, 2],
          wordtopics = [0, 0, 0], topic_histogram = [3, 0]\<rparr>) =
     Inr \<lparr>doc = \<lparr>unique_words = [''a'', ''b''], wordtopics_indices = [0, 0, 2],
                 wordtopics = [0, 0, 0], topic_histogram = [3, 0]\<rparr>,
          unique_word_index = 0, word_topic_index = 0\<rparr>"
    by code_simp
  have h3: "run [ReadWord, Advance, ReadTopic]
     \<lparr>doc = \<lparr>unique_words = [''a'', ''b''], wordtopics_indices = [0, 0, 2],
             wordtopics = [0, 0, 0], topic_histogram = [3, 0]\<rparr>,
      unique_word_index = 0, word_topic_index = 0\<rparr> =
     Inr \<lparr>doc = \<lparr>unique_words = [''a'', ''b''], wordtopics_indices = [0, 0, 2],
                 wordtopics = [0, 0, 0], topic_histogram = [3, 0]\<rparr>,
          unique_word_index = 1, word_topic_index = 1\<rparr>"
    by code_simp
  have h4: "step (SetTo 1)
     \<lparr>doc = \<lparr>unique_words = [''a'', ''b''], wordtopics_indices = [0, 0, 2],
             wordtopics = [0, 0, 0], topic_histogram = [3, 0]\<rparr>,
      unique_word_index = 1, word_topic_index = 1\<rparr> =
     Inr \<lparr>doc = \<lparr>unique_words = [''a'', ''b''], wordtopics_indices = [0, 0, 2],
                 wordtopics = [0, 1, 0], topic_histogram = [2, 1]\<rparr>,
          unique_word_index = 1, word_topic_index = 1\<rparr>"
    by code_simp
  from cursor_frame [OF h1 h2 h3] h1 h2 h3 h4 show ?thesis by simp
qed

text \<open>
  C10. In a document built from a text, \<open>wordtopics_indices\<close> has one entry per
  occurrence (as many as there are labels, and as many as the text has words). The
  entry at position k is the first position of the sorted words that holds the word at
  position k: the start of the group of that occurrence. The entries begin with 0, are
  in non-decreasing order, and an occurrence of the same word as the one before it
  repeats the entry before it, while an occurrence of a new word has its own position.
\<close>

theorem offsets_per_occurrence:
  assumes "NewDocument text K = Inr d"
  shows "length (wordtopics_indices d) = length (wordtopics d) \<and>
         length (wordtopics d) = length (tokens text) \<and>
         wordtopics_indices d ! 0 = 0 \<and>
         sorted (wordtopics_indices d) \<and>
         (\<forall>k < length (wordtopics d).
            0 \<le> wordtopics_indices d ! k \<and>
            nat (wordtopics_indices d ! k) \<le> k \<and>
            sorted_tokens text ! nat (wordtopics_indices d ! k) = sorted_tokens text ! k \<and>
            (\<forall>m < length (wordtopics d).
               sorted_tokens text ! m = sorted_tokens text ! k \<longrightarrow>
               nat (wordtopics_indices d ! k) \<le> m)) \<and>
         (\<forall>k. Suc k < length (wordtopics d) \<longrightarrow>
            wordtopics_indices d ! Suc k =
              (if sorted_tokens text ! Suc k = sorted_tokens text ! k
               then wordtopics_indices d ! k else int (Suc k)))"
proof -
  let ?ws = "sorted_tokens text"
  let ?N = "length ?ws"
  note b = NewDocument_built [OF assms]
  have s: "sorted ?ws" by (simp add: sorted_tokens_def)
  have n: "length (wordtopics d) = ?N" using b(5) by simp
  have at: "\<And>k. k < ?N \<Longrightarrow> wordtopics_indices d ! k = int (group_start ?ws k)"
    using b(4) by simp
  have 1: "length (wordtopics_indices d) = length (wordtopics d)" using b(4) n by simp
  have 2: "length (wordtopics d) = length (tokens text)" using n by (simp add: sorted_tokens_def)
  have "0 < ?N" using b(2) by linarith
  from at [OF this] have 3: "wordtopics_indices d ! 0 = 0" by simp
  have 4: "sorted (wordtopics_indices d)"
    unfolding b(4) by (auto simp: sorted_map sorted_wrt_iff_nth_less group_start_mono)
  have 5: "0 \<le> wordtopics_indices d ! k \<and>
            nat (wordtopics_indices d ! k) \<le> k \<and>
            ?ws ! nat (wordtopics_indices d ! k) = ?ws ! k \<and>
            (\<forall>m < length (wordtopics d). ?ws ! m = ?ws ! k \<longrightarrow> nat (wordtopics_indices d ! k) \<le> m)"
    if "k < length (wordtopics d)" for k
  proof -
    have k: "k < ?N" using that n by simp
    show ?thesis
      using at [OF k] group_start_le [of ?ws k] group_start_same [of ?ws k "group_start ?ws k"]
        group_start_first [OF s k]
      by simp
  qed
  have 6: "wordtopics_indices d ! Suc k =
              (if ?ws ! Suc k = ?ws ! k then wordtopics_indices d ! k else int (Suc k))"
    if "Suc k < length (wordtopics d)" for k
  proof -
    have "Suc k < ?N" "k < ?N" using that n by simp_all
    then show ?thesis using at by simp
  qed
  from 1 2 3 4 5 6 show ?thesis by blast
qed

theorem offsets_per_occurrence_witness:
  "NewDocument ''a a b'' 2 =
     Inr \<lparr>unique_words = [''a'', ''b''], wordtopics_indices = [0, 0, 2],
          wordtopics = [0, 0, 0], topic_histogram = [3, 0]\<rparr> \<and>
   length [0, 0, 2 :: int] = length [0, 0, 0 :: int] \<and>
   sorted [0, 0, 2 :: int] \<and> [0, 0, 2 :: int] ! Suc 0 = [0, 0, 2] ! 0"
proof -
  have h: "NewDocument ''a a b'' 2 =
     Inr \<lparr>unique_words = [''a'', ''b''], wordtopics_indices = [0, 0, 2],
          wordtopics = [0, 0, 0], topic_histogram = [3, 0]\<rparr>"
    by code_simp
  from offsets_per_occurrence [OF h] h show ?thesis by simp
qed

end
